theory Spec2Isabelle
  imports Complex_Main "HOL-Library.Word"
begin

section \<open>Helper functions for TAP-exported time series (notebooks/data\_tools.py)\<close>

text \<open>
  The module is a set of independent functions over numpy arrays and pandas data frames.
  Each function is embedded as a HOL function returning \<open>error + result\<close>: every
  exception the Python can raise on a well-typed input is a branch \<open>Inl\<close> of the
  model.  The numpy and pandas primitives the functions call are embedded next to them,
  following the documented behaviour of the library.

  Numbers: Python integers are \<open>int\<close>; the elements of a float array are exact reals
  (the rounding of float64 arithmetic is not part of the model); the elements of an int64
  array are 64-bit words, and the arithmetic on them wraps around.
\<close>

datatype error = ValueError | KeyError | IndexError | OverflowError | TypeError

subsection \<open>stats\<close>

text \<open>
  A float64 result is a real number or \<open>nan\<close>: numpy's \<open>mean\<close> of an empty array is
  \<open>nan\<close> (with a RuntimeWarning, no exception).
\<close>

datatype npfloat = NaN | Finite real

text \<open>\<open>ndarray.sum\<close>: the reduction of \<open>+\<close> over the array, starting from 0.\<close>

definition np_sum :: "real list \<Rightarrow> real" where
  "np_sum arr = foldl (+) 0 arr"

text \<open>\<open>ndarray.mean\<close>: the sum divided by the number of elements; \<open>nan\<close> when there is none.\<close>

definition np_mean :: "real list \<Rightarrow> npfloat" where
  "np_mean arr = (if arr = [] then NaN else Finite (np_sum arr / real (length arr)))"

text \<open>
  \<open>ndarray.max\<close>: the reduction of \<open>maximum\<close>, which has no identity: on an empty array
  it raises ValueError.
\<close>

fun np_max :: "real list \<Rightarrow> error + real" where
  "np_max [] = Inl ValueError"
| "np_max (x # xs) = Inr (foldl max x xs)"

text \<open>
  \<open>ndarray.std\<close> (with the default \<open>ddof = 0\<close>): the square root of the mean of the
  squared deviations from the mean.
\<close>

definition np_std :: "real list \<Rightarrow> npfloat" where
  "np_std arr =
     (case np_mean arr of
        NaN \<Rightarrow> NaN
      | Finite m \<Rightarrow>
          (case np_mean (map (\<lambda>x. (x - m) * (x - m)) arr) of
             NaN \<Rightarrow> NaN
           | Finite v \<Rightarrow> Finite (sqrt v)))"

text \<open>The OrderedDict returned by \<open>stats\<close>: four keys, each holding a number or None.\<close>

record stats_record =
  min_key :: "npfloat option"
  max_key :: "real option"
  mean_key :: "npfloat option"
  std_key :: "npfloat option"

text \<open>
  \<open>stats\<close>: the four entries are evaluated in the order they are written (mean, max,
  mean, std); a ValueError raised on the way is caught and replaced by the record of
  four None.  The entry under the key \<open>min\<close> is \<open>arr.mean()\<close>.
\<close>

definition stats_try :: "real list \<Rightarrow> error + stats_record" where
  "stats_try arr =
     (let mn = np_mean arr in
      case np_max arr of
        Inl e \<Rightarrow> Inl e
      | Inr mx \<Rightarrow>
          (let me = np_mean arr; sd = np_std arr in
           Inr \<lparr>min_key = Some mn, max_key = Some mx, mean_key = Some me, std_key = Some sd\<rparr>))"

definition stats :: "real list \<Rightarrow> error + stats_record" where
  "stats arr =
     (case stats_try arr of
        Inl ValueError \<Rightarrow>
          Inr \<lparr>min_key = None, max_key = None, mean_key = None, std_key = None\<rparr>
      | Inl e \<Rightarrow> Inl e
      | Inr r \<Rightarrow> Inr r)"

subsection \<open>Data frames\<close>

text \<open>
  A pandas DataFrame: the column names, and the rows in their order, each with its index
  label.  A row gives the value of every column.  All cells hold values of one ordered
  type \<open>'v\<close> (comparisons between them never raise), and no cell is missing.
\<close>

type_synonym 'v row = "string \<Rightarrow> 'v"

record 'v table =
  columns :: "string list"
  rows :: "(int \<times> 'v row) list"

text \<open>\<open>df[field]\<close>: the column as a sequence of values; KeyError for an unknown column.\<close>

definition getitem_col :: "'v table \<Rightarrow> string \<Rightarrow> error + 'v list" where
  "getitem_col df field =
     (if field \<in> set (columns df) then Inr (map (\<lambda>(i, r). r field) (rows df))
      else Inl KeyError)"

text \<open>\<open>df[m]\<close> for a boolean series \<open>m\<close>: the rows at which \<open>m\<close> is True, labels kept.\<close>

definition getitem_mask :: "'v table \<Rightarrow> bool list \<Rightarrow> 'v table" where
  "getitem_mask df m = df\<lparr>rows := map fst (filter snd (zip (rows df) m))\<rparr>"

text \<open>\<open>df.reset_index(drop=True)\<close>: the rows relabelled 0, 1, 2, ... in their order.\<close>

definition reset_index :: "'v table \<Rightarrow> 'v table" where
  "reset_index df =
     df\<lparr>rows := zip (map int [0..<length (rows df)]) (map snd (rows df))\<rparr>"

text \<open>Elementwise operations on series: \<open>s >= v\<close>, \<open>s <= v\<close>, \<open>s & t\<close>, \<open>~s\<close>, \<open>s.isin(vals)\<close>.\<close>

definition series_ge :: "('v::linorder) list \<Rightarrow> 'v \<Rightarrow> bool list" where
  "series_ge s v = map (\<lambda>x. v \<le> x) s"

definition series_le :: "('v::linorder) list \<Rightarrow> 'v \<Rightarrow> bool list" where
  "series_le s v = map (\<lambda>x. x \<le> v) s"

definition series_and :: "bool list \<Rightarrow> bool list \<Rightarrow> bool list" where
  "series_and s t = map2 (\<and>) s t"

definition series_not :: "bool list \<Rightarrow> bool list" where
  "series_not s = map Not s"

definition isin :: "'v list \<Rightarrow> 'v list \<Rightarrow> bool list" where
  "isin s vals = map (\<lambda>x. x \<in> set vals) s"

subsection \<open>dates\<close>

text \<open>
  \<open>_min, _max = params\<close>, then the rows with \<open>df[field] >= _min\<close> and
  \<open>df[field] <= _max\<close>, relabelled.
\<close>

definition dates :: "('v::linorder) table \<Rightarrow> 'v \<times> 'v \<Rightarrow> string \<Rightarrow> error + 'v table" where
  "dates df params field =
     (case params of (min_p, max_p) \<Rightarrow>
        (case getitem_col df field of
           Inl e \<Rightarrow> Inl e
         | Inr col \<Rightarrow>
             Inr (reset_index
                    (getitem_mask df (series_and (series_ge col min_p) (series_le col max_p))))))"

subsection \<open>mask\<close>

definition mask_values :: "int list" where
  "mask_values =
     [1, 96, 112, 160, 176, 224, 352, 368, 416, 432, 480, 864, 880, 928, 944, 992]"

text \<open>The rows whose \<open>mask_field\<close> value is not in \<open>vals\<close>, relabelled.\<close>

definition mask :: "'v table \<Rightarrow> 'v list \<Rightarrow> string \<Rightarrow> error + 'v table" where
  "mask df vals mask_field =
     (case getitem_col df mask_field of
        Inl e \<Rightarrow> Inl e
      | Inr col \<Rightarrow> Inr (reset_index (getitem_mask df (series_not (isin col vals)))))"

text \<open>The call \<open>mask(df)\<close>, with both defaults: \<open>vals=mask_values\<close>, \<open>mask_field='qa'\<close>.\<close>

definition mask_defaults :: "int table \<Rightarrow> error + int table" where
  "mask_defaults df = mask df mask_values ''qa''"

subsection \<open>Calendar dates\<close>

text \<open>
  \<open>datetime.datetime(year, month, day)\<close> of the standard library, at the resolution of
  a day: the constructor checks the fields and raises ValueError for a date that does not
  exist; \<open>toordinal\<close> counts the days from 0001-01-01 (which is day 1) in the proleptic
  Gregorian calendar.
\<close>

record datetime =
  year :: int
  month :: int
  day :: int

definition is_leap :: "int \<Rightarrow> bool" where
  "is_leap y = (y mod 4 = 0 \<and> (y mod 100 \<noteq> 0 \<or> y mod 400 = 0))"

definition days_in_month :: "int \<Rightarrow> int \<Rightarrow> int" where
  "days_in_month y m =
     (if m = 2 \<and> is_leap y then 29
      else [31, 28, 31, 30, 31, 30, 31, 31, 30, 31, 30, 31] ! nat (m - 1))"

definition days_before_year :: "int \<Rightarrow> int" where
  "days_before_year y = (y - 1) * 365 + (y - 1) div 4 - (y - 1) div 100 + (y - 1) div 400"

definition days_before_month :: "int \<Rightarrow> int \<Rightarrow> int" where
  "days_before_month y m =
     [0, 31, 59, 90, 120, 151, 181, 212, 243, 273, 304, 334] ! nat (m - 1)
       + (if m > 2 \<and> is_leap y then 1 else 0)"

definition datetime_new :: "int \<Rightarrow> int \<Rightarrow> int \<Rightarrow> error + datetime" where
  "datetime_new y m d =
     (if \<not> (1 \<le> y \<and> y \<le> 9999) then Inl ValueError
      else if \<not> (1 \<le> m \<and> m \<le> 12) then Inl ValueError
      else if \<not> (1 \<le> d \<and> d \<le> days_in_month y m) then Inl ValueError
      else Inr \<lparr>year = y, month = m, day = d\<rparr>)"

definition toordinal :: "datetime \<Rightarrow> int" where
  "toordinal t = days_before_year (year t) + days_before_month (year t) (month t) + day t"

text \<open>The day after a date.\<close>

definition next_day :: "datetime \<Rightarrow> datetime" where
  "next_day t =
     (if day t < days_in_month (year t) (month t) then t\<lparr>day := day t + 1\<rparr>
      else if month t < 12 then t\<lparr>month := month t + 1, day := 1\<rparr>
      else \<lparr>year = year t + 1, month = 1, day = 1\<rparr>)"

text \<open>A date that the constructor accepts, field by field.\<close>

definition valid_date :: "datetime \<Rightarrow> bool" where
  "valid_date t = (datetime_new (year t) (month t) (day t) = Inr t)"

subsection \<open>nearest\_date\<close>

text \<open>
  \<open>ndarray.argmin\<close>: one pass from the left that keeps the position of the smallest
  value seen so far and moves it only for a strictly smaller value; ValueError on an
  empty array.
\<close>

fun argmin_from :: "int list \<Rightarrow> nat \<Rightarrow> int \<Rightarrow> nat \<Rightarrow> nat" where
  "argmin_from [] i mv mi = mi"
| "argmin_from (x # xs) i mv mi =
     (if x < mv then argmin_from xs (Suc i) x i else argmin_from xs (Suc i) mv mi)"

fun np_argmin :: "int list \<Rightarrow> error + nat" where
  "np_argmin [] = Inl ValueError"
| "np_argmin (x # xs) = Inr (argmin_from xs 1 x 0)"

text \<open>
  The value of an int64 operation whose exact result is \<open>x\<close>: the result wraps around
  into \<open>-2 ^ 63 .. 2 ^ 63 - 1\<close>.
\<close>

definition wrap64 :: "int \<Rightarrow> int" where
  "wrap64 x = (x + 2 ^ 63) mod 2 ^ 64 - 2 ^ 63"

text \<open>
  \<open>date = dt.datetime(*date).toordinal()\<close>, then \<open>(np.abs(array - date)).argmin()\<close>.
  The array holds ordinal day counts as int64: both the subtraction and \<open>np.abs\<close> wrap
  around.
\<close>

definition nearest_date :: "64 word list \<Rightarrow> int \<times> int \<times> int \<Rightarrow> error + nat" where
  "nearest_date array date =
     (case date of (y, m, d) \<Rightarrow>
        (case datetime_new y m d of
           Inl e \<Rightarrow> Inl e
         | Inr t \<Rightarrow> np_argmin (map (\<lambda>x. wrap64 \<bar>wrap64 (sint x - toordinal t)\<bar>) array)))"

subsection \<open>assemble\<close>

text \<open>
  Integer indexing of a numpy axis of length \<open>n\<close> (and of a Python sequence): an index
  from \<open>-n\<close> to \<open>-1\<close> counts from the end, an index outside \<open>-n .. n - 1\<close> raises
  IndexError.
\<close>

definition np_index :: "nat \<Rightarrow> int \<Rightarrow> error + nat" where
  "np_index n i =
     (if 0 \<le> i \<and> i < int n then Inr (nat i)
      else if - int n \<le> i \<and> i < 0 then Inr (nat (i + int n))
      else Inl IndexError)"

text \<open>\<open>xs[i]\<close> on a sequence.\<close>

definition seq_getitem :: "'a list \<Rightarrow> int \<Rightarrow> error + 'a" where
  "seq_getitem xs i =
     (case np_index (length xs) i of Inl e \<Rightarrow> Inl e | Inr k \<Rightarrow> Inr (xs ! k))"

text \<open>
  A two-dimensional integer array is the list of its rows.
  \<open>np.zeros(shape=(h, w), dtype=np.int)\<close>:
\<close>

type_synonym grid = "int list list"

definition np_zeros :: "nat \<Rightarrow> nat \<Rightarrow> grid" where
  "np_zeros h w = replicate h (replicate w 0)"

text \<open>
  \<open>g[row][col] = v\<close>: \<open>g[row]\<close> is a view of the row, the assignment writes through
  it.  The element type is the 64-bit signed integer: a Python integer outside its range
  raises OverflowError.
\<close>

definition np_setitem2 :: "grid \<Rightarrow> int \<Rightarrow> int \<Rightarrow> int \<Rightarrow> error + grid" where
  "np_setitem2 g row col v =
     (case np_index (length g) row of
        Inl e \<Rightarrow> Inl e
      | Inr r \<Rightarrow>
          (case np_index (length (g ! r)) col of
             Inl e \<Rightarrow> Inl e
           | Inr c \<Rightarrow>
               if - (2 ^ 63) \<le> v \<and> v < 2 ^ 63 then Inr (g[r := (g ! r)[c := v]])
               else Inl OverflowError))"

text \<open>\<open>g[row][col]\<close>, read.\<close>

definition np_getitem2 :: "grid \<Rightarrow> int \<Rightarrow> int \<Rightarrow> error + int" where
  "np_getitem2 g row col =
     (case np_index (length g) row of
        Inl e \<Rightarrow> Inl e
      | Inr r \<Rightarrow> seq_getitem (g ! r) col)"

text \<open>
  \<open>int(d / 30)\<close> for an integer \<open>d\<close>: the true quotient, truncated towards zero.
  (The quotient is a float64; it is exact enough for the truncation to be that of the
  exact quotient as long as \<open>\<bar>d\<bar> < 2 ^ 53\<close>.)
\<close>

definition int_quot30 :: "int \<Rightarrow> int" where
  "int_quot30 d = (if 0 \<le> d then d div 30 else - ((- d) div 30))"

text \<open>
  A record of the time series: \<open>t[0] = (chip_x, chip_y, x, y)\<close> and \<open>t[1]\<close>, a
  dictionary from band names to sequences of values.
\<close>

type_synonym chip_record = "(int \<times> int \<times> int \<times> int) \<times> (string \<rightharpoonup> int list)"

text \<open>
  The inner loop, \<open>for b in bands: out[b][row][col] = t[1][b][ind]\<close>.  The right-hand
  side is evaluated first.
\<close>

fun write_bands ::
  "(string \<rightharpoonup> grid) \<Rightarrow> (string \<rightharpoonup> int list) \<Rightarrow> int \<Rightarrow> int \<Rightarrow> int \<Rightarrow> string list
     \<Rightarrow> error + (string \<rightharpoonup> grid)" where
  "write_bands out data ind row col [] = Inr out"
| "write_bands out data ind row col (b # bs) =
     (case data b of
        None \<Rightarrow> Inl KeyError
      | Some vs \<Rightarrow>
          (case seq_getitem vs ind of
             Inl e \<Rightarrow> Inl e
           | Inr v \<Rightarrow>
               (case out b of
                  None \<Rightarrow> Inl KeyError
                | Some g \<Rightarrow>
                    (case np_setitem2 g row col v of
                       Inl e \<Rightarrow> Inl e
                     | Inr g' \<Rightarrow> write_bands (out(b \<mapsto> g')) data ind row col bs))))"

text \<open>The outer loop, \<open>for t in timeseries\<close>.\<close>

fun assemble_loop ::
  "(string \<rightharpoonup> grid) \<Rightarrow> chip_record list \<Rightarrow> int \<Rightarrow> string list \<Rightarrow> error + (string \<rightharpoonup> grid)" where
  "assemble_loop out [] ind bands = Inr out"
| "assemble_loop out (t # ts) ind bands =
     (case t of ((chip_coord_x, chip_coord_y, coord_x, coord_y), data) \<Rightarrow>
        (let col = int_quot30 (coord_x - chip_coord_x);
             row = int_quot30 (chip_coord_y - coord_y)
         in case write_bands out data ind row col bands of
              Inl e \<Rightarrow> Inl e
            | Inr out' \<Rightarrow> assemble_loop out' ts ind bands))"

definition assemble ::
  "chip_record list \<Rightarrow> int \<Rightarrow> string list \<Rightarrow> error + (string \<rightharpoonup> grid)" where
  "assemble timeseries ind bands =
     assemble_loop (map_of (map (\<lambda>b. (b, np_zeros 100 100)) bands)) timeseries ind bands"

text \<open>
  Notions used to state the properties of \<open>assemble\<close>: a grid of 100 rows of 100
  cells; band values that can be read at \<open>ind\<close> and stored; the offsets of a pixel
  from its chip origin.
\<close>

definition shape100 :: "grid \<Rightarrow> bool" where
  "shape100 g = (length g = 100 \<and> list_all (\<lambda>row. length row = 100) g)"

definition readable :: "(string \<rightharpoonup> int list) \<Rightarrow> int \<Rightarrow> string \<Rightarrow> bool" where
  "readable data ind b =
     (case data b of
        None \<Rightarrow> False
      | Some vs \<Rightarrow>
          (case seq_getitem vs ind of
             Inl e \<Rightarrow> False
           | Inr v \<Rightarrow> - (2 ^ 63) \<le> v \<and> v < 2 ^ 63))"

definition on_grid :: "int \<Rightarrow> bool" where
  "on_grid d = (30 dvd d \<and> 0 \<le> d \<and> d \<le> 2970)"

definition before_origin :: "int \<Rightarrow> bool" where
  "before_origin d = (- 3001 < d \<and> d < 0)"

definition offsets_in_reach :: "chip_record \<Rightarrow> bool" where
  "offsets_in_reach t =
     (case t of ((chip_coord_x, chip_coord_y, coord_x, coord_y), data) \<Rightarrow>
        (on_grid (coord_x - chip_coord_x) \<or> before_origin (coord_x - chip_coord_x)) \<and>
        (on_grid (chip_coord_y - coord_y) \<or> before_origin (chip_coord_y - coord_y)))"

text \<open>
  Where the code's index arithmetic puts a record, stated without the code: the
  position in \<open>0 .. 99\<close> at which an offset \<open>d\<close> lands (counted from the start for
  \<open>d \<ge> 0\<close>, from the end for \<open>d \<le> -30\<close>, and 0 in between); the value
  \<open>t[1][b][ind]\<close> where it can be read; and a grid after the write of one record.
\<close>

definition landing :: "int \<Rightarrow> nat" where
  "landing d =
     (if 0 \<le> d then nat (d div 30)
      else if d \<le> - 30 then 100 - nat ((- d) div 30)
      else 0)"

definition band_value :: "(string \<rightharpoonup> int list) \<Rightarrow> int \<Rightarrow> string \<Rightarrow> int" where
  "band_value data ind b =
     (case data b of
        None \<Rightarrow> 0
      | Some vs \<Rightarrow> (case seq_getitem vs ind of Inl e \<Rightarrow> 0 | Inr v \<Rightarrow> v))"

definition written :: "grid \<Rightarrow> chip_record \<Rightarrow> int \<Rightarrow> string \<Rightarrow> grid" where
  "written g t ind b =
     (case t of ((chip_coord_x, chip_coord_y, coord_x, coord_y), data) \<Rightarrow>
        g[landing (chip_coord_y - coord_y) :=
            (g ! landing (chip_coord_y - coord_y))
              [landing (coord_x - chip_coord_x) := band_value data ind b]])"

subsection \<open>sort\_on and temporal\<close>

text \<open>
  The pandas method is
  \<open>DataFrame.sort_values(by, axis=0, ascending=True, inplace=False, kind='quicksort',
  na_position='last')\<close>: its second parameter is \<open>axis\<close>, its third \<open>ascending\<close>.

  With axis 0 the rows are reordered by the values of the column \<open>by\<close> (KeyError for an
  unknown column), ascending or descending.  With axis 1 the columns are reordered by the
  values in the row labelled \<open>by\<close>; the row labels of the model are integers, so the name
  of a field is never one of them: KeyError.  Rows with equal keys are kept in their
  original order here; the library's default sorting kind does not promise that.
\<close>

datatype axis = Axis0 | Axis1

definition sort_values ::
  "('v::linorder) table \<Rightarrow> string \<Rightarrow> axis \<Rightarrow> bool \<Rightarrow> error + 'v table" where
  "sort_values df by axis ascending =
     (case axis of
        Axis1 \<Rightarrow> Inl KeyError
      | Axis0 \<Rightarrow>
          (if by \<in> set (columns df) then
             Inr (df\<lparr>rows :=
                     (if ascending then sort_key (\<lambda>(i, r). r by) (rows df)
                      else rev (sort_key (\<lambda>(i, r). r by) (rev (rows df))))\<rparr>)
           else Inl KeyError))"

text \<open>
  \<open>sort_on\<close> and \<open>temporal\<close> have the same body,
  \<open>df.sort_values(field, ascending).reset_index(drop=True)\<close>: their \<open>ascending\<close> is
  passed by position, that is as \<open>axis\<close>, and the parameter \<open>ascending\<close> of
  \<open>sort_values\<close> keeps its default True.

  What pandas makes of a bool given as \<open>axis\<close> depends on its release: before 1.0 it
  raises ValueError (no axis named True, or False); in 1.x the bool is looked up like the
  integer it equals (False is axis 0, True is axis 1); from 2.0 on \<open>axis\<close> is
  keyword-only and the call raises TypeError.  The resolution is the parameter
  \<open>axis_of_bool\<close> of the model; \<open>pandas_1_axis\<close> is that of the releases 1.x.
\<close>

definition sort_on ::
  "(bool \<Rightarrow> error + axis) \<Rightarrow> ('v::linorder) table \<Rightarrow> string \<Rightarrow> bool \<Rightarrow> error + 'v table" where
  "sort_on axis_of_bool df field ascending =
     (case axis_of_bool ascending of
        Inl e \<Rightarrow> Inl e
      | Inr axis \<Rightarrow>
          (case sort_values df field axis True of
             Inl e \<Rightarrow> Inl e
           | Inr d \<Rightarrow> Inr (reset_index d)))"

definition temporal ::
  "(bool \<Rightarrow> error + axis) \<Rightarrow> ('v::linorder) table \<Rightarrow> bool \<Rightarrow> string \<Rightarrow> error + 'v table" where
  "temporal axis_of_bool df ascending field =
     (case axis_of_bool ascending of
        Inl e \<Rightarrow> Inl e
      | Inr axis \<Rightarrow>
          (case sort_values df field axis True of
             Inl e \<Rightarrow> Inl e
           | Inr d \<Rightarrow> Inr (reset_index d)))"

definition pandas_1_axis :: "bool \<Rightarrow> error + axis" where
  "pandas_1_axis b = Inr (if b then Axis1 else Axis0)"

subsection \<open>years, date\_range and seasons\<close>

text \<open>\<open>Series.unique\<close>: the distinct values, in the order of their first appearance.\<close>

fun unique_seen :: "'a list \<Rightarrow> 'a list \<Rightarrow> 'a list" where
  "unique_seen seen [] = []"
| "unique_seen seen (x # xs) =
     (if x \<in> set seen then unique_seen seen xs else x # unique_seen (x # seen) xs)"

definition unique :: "'a list \<Rightarrow> 'a list" where
  "unique xs = unique_seen [] xs"

text \<open>\<open>df['dates'].apply(lambda x: (x.timetuple()).tm_year).unique()\<close>\<close>

definition years :: "datetime table \<Rightarrow> error + int list" where
  "years df =
     (case getitem_col df ''dates'' of
        Inl e \<Rightarrow> Inl e
      | Inr col \<Rightarrow> Inr (unique (map year col)))"

text \<open>
  The entries of a pandas DatetimeIndex are timestamps: int64 counts of nanoseconds since
  1970-01-01 00:00 (which is ordinal day 719163).  A date is converted at its midnight;
  a count outside the int64 range (a date before 1677-09-22 or after 2262-04-11) raises
  OutOfBoundsDatetime, a ValueError.
\<close>

definition day_ns :: int where
  "day_ns = 86400000000000"

definition timestamp_of :: "datetime \<Rightarrow> int" where
  "timestamp_of t = (toordinal t - 719163) * day_ns"

definition in_timestamp_range :: "int \<Rightarrow> bool" where
  "in_timestamp_range v = (- (2 ^ 63) < v \<and> v < 2 ^ 63)"

text \<open>
  The frequency argument: the string \<open>'D'\<close> (calendar day, the default of \<open>seasons\<close>),
  or another frequency code.  What pandas generates for another code (weeks, month
  ends, hours, ...) between two timestamps is the parameter \<open>coded_range\<close> of the
  model.
\<close>

datatype 'c freq = D | Code 'c

text \<open>The dictionary that \<open>seasons\<close> passes to \<open>date_range\<close>; \<open>None\<close> is a value.\<close>

record 'c date_range_params =
  start_p :: datetime
  end_p :: datetime
  periods_p :: "int option"
  freq_p :: "'c freq option"

text \<open>
  \<open>np.linspace(0, x, n, dtype='int64')\<close>: \<open>n\<close> evenly spaced values from 0 to \<open>x\<close>,
  the first one being 0 and the last one \<open>x\<close> itself, each rounded down to an integer.
  The values in between are computed here in exact arithmetic (numpy computes them in
  float64, and before release 1.20 rounds them towards zero, which differs for
  \<open>x < 0\<close> only).
\<close>

definition np_linspace :: "int \<Rightarrow> nat \<Rightarrow> int list" where
  "np_linspace x n =
     (if n = 0 then []
      else if n = 1 then [0]
      else map (\<lambda>k. (int k * x) div (int n - 1)) [0..<n - 1] @ [x])"

text \<open>The timestamps \<open>s\<close>, \<open>s\<close> + 1 day, ... that do not exceed \<open>e\<close>.\<close>

definition daily_range :: "int \<Rightarrow> int \<Rightarrow> int list" where
  "daily_range s e = map (\<lambda>k. s + int k * day_ns) [0..<nat ((e - s) div day_ns + 1)]"

text \<open>
  \<open>pd.date_range(start=, end=, periods=, freq=)\<close> with \<open>start\<close> and \<open>end\<close> given, as
  \<open>seasons\<close> calls it.  Of the four parameters exactly three must be given (not None),
  else ValueError: so \<open>periods\<close> and \<open>freq\<close> cannot both be given.  With \<open>periods\<close>
  alone the result is that number of timestamps, evenly spaced from \<open>start\<close> to \<open>end\<close>
  (a negative number raises ValueError).  With \<open>freq\<close> alone the result steps from
  \<open>start\<close> by the frequency up to \<open>end\<close>.  With neither, the frequency is \<open>'D'\<close>.
\<close>

definition date_range ::
  "('c \<Rightarrow> int \<Rightarrow> int \<Rightarrow> error + int list) \<Rightarrow> 'c date_range_params \<Rightarrow> error + int list" where
  "date_range coded_range params =
     (let s = timestamp_of (start_p params); e = timestamp_of (end_p params) in
      case periods_p params of
        Some n \<Rightarrow>
          (case freq_p params of
             Some f \<Rightarrow> Inl ValueError
           | None \<Rightarrow>
               if n < 0 \<or> \<not> (in_timestamp_range s \<and> in_timestamp_range e) then Inl ValueError
               else Inr (map (\<lambda>v. s + v) (np_linspace (e - s) (nat n))))
      | None \<Rightarrow>
          if \<not> (in_timestamp_range s \<and> in_timestamp_range e) then Inl ValueError
          else
            (case freq_p params of
               None \<Rightarrow> Inr (daily_range s e)
             | Some D \<Rightarrow> Inr (daily_range s e)
             | Some (Code c) \<Rightarrow> coded_range c s e))"

text \<open>
  \<open>seasons\<close>: the list comprehension over \<open>years(df)\<close> builds the pairs in order and
  stops at the first exception; the OrderedDict keeps the pairs in that order.  The
  defaults of the source are \<open>periods=None\<close> and \<open>freq='D'\<close>.
\<close>

fun season_items ::
  "('c \<Rightarrow> int \<Rightarrow> int \<Rightarrow> error + int list) \<Rightarrow> int list \<Rightarrow> int \<Rightarrow> int \<Rightarrow> int \<Rightarrow> int
     \<Rightarrow> int option \<Rightarrow> 'c freq option \<Rightarrow> error + (int \<times> int list) list" where
  "season_items coded_range [] start_mon start_day end_mon end_day periods freq = Inr []"
| "season_items coded_range (y # ys) start_mon start_day end_mon end_day periods freq =
     (case datetime_new y start_mon start_day of
        Inl e \<Rightarrow> Inl e
      | Inr s \<Rightarrow>
          (case datetime_new y end_mon end_day of
             Inl e \<Rightarrow> Inl e
           | Inr e \<Rightarrow>
               (case date_range coded_range
                       \<lparr>start_p = s, end_p = e, periods_p = periods, freq_p = freq\<rparr> of
                  Inl err \<Rightarrow> Inl err
                | Inr ds \<Rightarrow>
                    (case season_items coded_range ys start_mon start_day end_mon end_day
                            periods freq of
                       Inl err \<Rightarrow> Inl err
                     | Inr rest \<Rightarrow> Inr ((y, ds) # rest)))))"

definition seasons ::
  "('c \<Rightarrow> int \<Rightarrow> int \<Rightarrow> error + int list) \<Rightarrow> datetime table \<Rightarrow> int \<Rightarrow> int \<Rightarrow> int \<Rightarrow> int
     \<Rightarrow> int option \<Rightarrow> 'c freq option \<Rightarrow> error + (int \<times> int list) list" where
  "seasons coded_range df start_mon start_day end_mon end_day periods freq =
     (case years df of
        Inl e \<Rightarrow> Inl e
      | Inr ys \<Rightarrow> season_items coded_range ys start_mon start_day end_mon end_day periods freq)"

text \<open>
  The condition under which the season exists in every year of the table: the table
  has the column \<open>dates\<close>, and for the year of every row the start and the end of the
  season are dates of the calendar that pandas can hold as timestamps.
\<close>

definition season_in_calendar :: "datetime table \<Rightarrow> int \<Rightarrow> int \<Rightarrow> int \<Rightarrow> int \<Rightarrow> bool" where
  "season_in_calendar df start_mon start_day end_mon end_day =
     (''dates'' \<in> set (columns df) \<and>
      list_all
        (\<lambda>(i, r).
           case datetime_new (year (r ''dates'')) start_mon start_day of
             Inl err \<Rightarrow> False
           | Inr s \<Rightarrow>
               (case datetime_new (year (r ''dates'')) end_mon end_day of
                  Inl err \<Rightarrow> False
                | Inr e \<Rightarrow>
                    in_timestamp_range (timestamp_of s) \<and> in_timestamp_range (timestamp_of e)))
        (rows df))"

section \<open>Properties\<close>

subsection \<open>stats\<close>

lemma foldl_add_sum_list: "foldl (+) a xs = a + sum_list xs" for a :: real
  by (induction xs arbitrary: a) simp_all

lemma np_sum_sum_list: "np_sum arr = sum_list arr"
  by (simp add: np_sum_def foldl_add_sum_list)

lemma foldl_max_Max: "foldl max a xs = Max (insert a (set xs))" for a :: real
proof (induction xs arbitrary: a)
  case Nil
  show ?case by simp
next
  case (Cons x xs)
  have "Max (insert (max a x) (set xs)) = Max (insert a (insert x (set xs)))"
  proof (cases "set xs = {}")
    case True
    then show ?thesis by (simp add: max.commute)
  next
    case False
    then show ?thesis by (simp add: max.assoc)
  qed
  with Cons show ?case by simp
qed

lemma np_max_Max: "arr \<noteq> [] \<Longrightarrow> np_max arr = Inr (Max (set arr))"
  by (cases arr) (simp_all add: foldl_max_Max)

lemma np_mean_nonempty:
  "arr \<noteq> [] \<Longrightarrow> np_mean arr = Finite (sum_list arr / real (length arr))"
  by (simp add: np_mean_def np_sum_sum_list)

lemma np_std_nonempty:
  "arr \<noteq> [] \<Longrightarrow>
   np_std arr =
     Finite (sqrt ((\<Sum>x\<leftarrow>arr. (x - sum_list arr / real (length arr))\<^sup>2) / real (length arr)))"
  by (simp add: np_std_def np_mean_def np_sum_sum_list power2_eq_square)

text \<open>
  C5. On the empty array \<open>stats\<close> returns the record whose four entries min, max, mean
  and std are all None: the ValueError of \<open>max\<close> is caught, nothing is raised.
\<close>

theorem stats_empty:
  "stats [] = Inr \<lparr>min_key = None, max_key = None, mean_key = None, std_key = None\<rparr>"
  by (simp add: stats_def stats_try_def)

text \<open>
  C1. On a non-empty array \<open>stats\<close> returns a record with all four entries present:
  mean is the arithmetic mean, max the maximum, std the population standard deviation
  (divisor \<open>n\<close>), and the entry min holds the mean again.
\<close>

theorem stats_nonempty:
  "arr \<noteq> [] \<Longrightarrow>
   stats arr =
     Inr \<lparr>min_key = Some (Finite (sum_list arr / real (length arr))),
          max_key = Some (Max (set arr)),
          mean_key = Some (Finite (sum_list arr / real (length arr))),
          std_key = Some (Finite (sqrt ((\<Sum>x\<leftarrow>arr. (x - sum_list arr / real (length arr))\<^sup>2)
                                          / real (length arr))))\<rparr>"
  by (simp add: stats_def stats_try_def np_max_Max np_mean_nonempty np_std_nonempty)

theorem stats_nonempty_witness:
  "[2, 4, 6] \<noteq> ([] :: real list) \<and>
   stats [2, 4, 6] =
     Inr \<lparr>min_key = Some (Finite 4), max_key = Some 6, mean_key = Some (Finite 4),
          std_key = Some (Finite (sqrt (8 / 3)))\<rparr>"
  using stats_nonempty [of "[2, 4, 6]"] by simp

subsection \<open>Selecting rows\<close>

lemma select_by_predicate:
  "map fst (filter snd (zip xs (map p xs))) = filter p xs"
  by (induction xs) simp_all

lemma getitem_mask_filter:
  "getitem_mask df (map (\<lambda>(i, r). p r) (rows df)) = df\<lparr>rows := filter (\<lambda>(i, r). p r) (rows df)\<rparr>"
  by (simp add: getitem_mask_def select_by_predicate)

lemma map_snd_filter_rows:
  "map snd (filter (\<lambda>(i, r). p r) xs) = filter p (map snd xs)"
  by (induction xs) auto

lemma reset_index_filter:
  "reset_index (df\<lparr>rows := filter (\<lambda>(i, r). p r) (rows df)\<rparr>) =
     df\<lparr>rows := zip (map int [0..<length (filter p (map snd (rows df)))])
                     (filter p (map snd (rows df)))\<rparr>"
proof -
  have "length (filter (\<lambda>(i, r). p r) (rows df)) = length (filter p (map snd (rows df)))"
    using map_snd_filter_rows [of p "rows df"] by (metis length_map)
  then show ?thesis
    by (simp add: reset_index_def map_snd_filter_rows)
qed

lemma dates_mask_eq:
  "series_and (series_ge (map (\<lambda>(i, r). r field) xs) a) (series_le (map (\<lambda>(i, r). r field) xs) b) =
     map (\<lambda>(i, r). a \<le> r field \<and> r field \<le> b) xs"
  by (induction xs) (auto simp: series_and_def series_ge_def series_le_def)

lemma mask_mask_eq:
  "series_not (isin (map (\<lambda>(i, r). r field) xs) vals) = map (\<lambda>(i, r). r field \<notin> set vals) xs"
  by (induction xs) (auto simp: series_not_def isin_def)

lemma dates_eq:
  "field \<in> set (columns df) \<Longrightarrow>
   dates df (a, b) field =
     Inr (df\<lparr>rows := zip (map int [0..<length (filter (\<lambda>r. a \<le> r field \<and> r field \<le> b) (map snd (rows df)))])
                          (filter (\<lambda>r. a \<le> r field \<and> r field \<le> b) (map snd (rows df)))\<rparr>)"
  by (simp add: dates_def getitem_col_def dates_mask_eq getitem_mask_filter reset_index_filter)

lemma mask_eq:
  "field \<in> set (columns df) \<Longrightarrow>
   mask df vals field =
     Inr (df\<lparr>rows := zip (map int [0..<length (filter (\<lambda>r. r field \<notin> set vals) (map snd (rows df)))])
                          (filter (\<lambda>r. r field \<notin> set vals) (map snd (rows df)))\<rparr>)"
  by (simp add: mask_def getitem_col_def mask_mask_eq getitem_mask_filter reset_index_filter)

lemma rows_relabelled:
  "map snd (zip (map int [0..<length xs]) xs) = xs"
  "map fst (zip (map int [0..<length xs]) xs) = map int [0..<length xs]"
  by (simp_all add: map_snd_zip map_fst_zip)

subsection \<open>dates\<close>

text \<open>
  C6. For a column \<open>field\<close> of the table, \<open>dates\<close> returns the table of exactly the
  rows whose value \<open>v\<close> of that column satisfies \<open>a \<le> v \<le> b\<close> (both ends included), in
  their original relative order, relabelled from 0; it has at most as many rows as the
  input.
\<close>

theorem dates_inclusive:
  "field \<in> set (columns df) \<Longrightarrow>
   \<exists>d. dates df (a, b) field = Inr d \<and>
       columns d = columns df \<and>
       map snd (rows d) = filter (\<lambda>r. a \<le> r field \<and> r field \<le> b) (map snd (rows df)) \<and>
       map fst (rows d) = map int [0..<length (rows d)] \<and>
       length (rows d) \<le> length (rows df)"
proof -
  assume col: "field \<in> set (columns df)"
  let ?kept = "filter (\<lambda>r. a \<le> r field \<and> r field \<le> b) (map snd (rows df))"
  let ?d = "df\<lparr>rows := zip (map int [0..<length ?kept]) ?kept\<rparr>"
  have "dates df (a, b) field = Inr ?d"
    using col by (rule dates_eq)
  moreover have "columns ?d = columns df"
    by simp
  moreover have "map snd (rows ?d) = ?kept"
    by (simp add: rows_relabelled)
  moreover have "map fst (rows ?d) = map int [0..<length (rows ?d)]"
    by (simp add: rows_relabelled)
  moreover have "length (rows ?d) \<le> length (rows df)"
    using length_filter_le [of _ "map snd (rows df)"] by simp
  ultimately show ?thesis
    by blast
qed

theorem dates_inclusive_witness:
  "''dates'' \<in> set [''dates'', ''qa''] \<and>
   (\<exists>d. dates \<lparr>columns = [''dates'', ''qa''],
                rows = [(7, \<lambda>_. 5), (8, \<lambda>_. 1), (9, \<lambda>_. 2), (4, \<lambda>_. 3 :: int)]\<rparr>
           (2, 5) ''dates'' = Inr d \<and>
        map (\<lambda>r. r ''dates'') (map snd (rows d)) = [5, 2, 3] \<and>
        map fst (rows d) = [0, 1, 2])"
proof -
  let ?df = "\<lparr>columns = [''dates'', ''qa''],
              rows = [(7, \<lambda>_. 5), (8, \<lambda>_. 1), (9, \<lambda>_. 2), (4, \<lambda>_. 3 :: int)]\<rparr>"
  have col: "''dates'' \<in> set (columns ?df)"
    by simp
  obtain d where d: "dates ?df (2, 5) ''dates'' = Inr d"
    "map snd (rows d) = filter (\<lambda>r. 2 \<le> r ''dates'' \<and> r ''dates'' \<le> 5) (map snd (rows ?df))"
    "map fst (rows d) = map int [0..<length (rows d)]"
    using dates_inclusive [OF col, of 2 5] by blast
  from d(2) have vals: "map snd (rows d) = [\<lambda>_. 5, \<lambda>_. 2, \<lambda>_. 3]"
    by simp
  then have "length (rows d) = 3"
    by (metis length_map length_Cons list.size(3) numeral_3_eq_3)
  with d(3) have "map fst (rows d) = [0, 1, 2]"
    by (simp add: upt_rec)
  with d(1) vals show ?thesis
    by auto
qed

subsection \<open>mask\<close>

text \<open>
  C7. For a column \<open>mask_field\<close> of the table, \<open>mask\<close> returns the table of exactly the
  rows whose value of that column is not one of \<open>vals\<close>, in their original relative
  order, relabelled from 0.  Called with its defaults, it tests the column \<open>qa\<close> against
  the sixteen codes of \<open>mask_values\<close>.
\<close>

theorem mask_removes_listed:
  "(mask_field \<in> set (columns df) \<longrightarrow>
      (\<exists>d. mask df vals mask_field = Inr d \<and>
           columns d = columns df \<and>
           map snd (rows d) = filter (\<lambda>r. r mask_field \<notin> set vals) (map snd (rows df)) \<and>
           map fst (rows d) = map int [0..<length (rows d)])) \<and>
   mask_defaults df0 =
     mask df0 [1, 96, 112, 160, 176, 224, 352, 368, 416, 432, 480, 864, 880, 928, 944, 992] ''qa'' \<and>
   length mask_values = 16 \<and> distinct mask_values"
proof -
  have "\<exists>d. mask df vals mask_field = Inr d \<and>
           columns d = columns df \<and>
           map snd (rows d) = filter (\<lambda>r. r mask_field \<notin> set vals) (map snd (rows df)) \<and>
           map fst (rows d) = map int [0..<length (rows d)]"
    if col: "mask_field \<in> set (columns df)"
  proof -
    let ?kept = "filter (\<lambda>r. r mask_field \<notin> set vals) (map snd (rows df))"
    let ?d = "df\<lparr>rows := zip (map int [0..<length ?kept]) ?kept\<rparr>"
    have "mask df vals mask_field = Inr ?d"
      using col by (rule mask_eq)
    moreover have "columns ?d = columns df"
      by simp
    moreover have "map snd (rows ?d) = ?kept"
      by (simp add: rows_relabelled)
    moreover have "map fst (rows ?d) = map int [0..<length (rows ?d)]"
      by (simp add: rows_relabelled)
    ultimately show ?thesis
      by blast
  qed
  moreover have "mask_defaults df0 =
     mask df0 [1, 96, 112, 160, 176, 224, 352, 368, 416, 432, 480, 864, 880, 928, 944, 992] ''qa''"
    by (simp add: mask_defaults_def mask_values_def)
  moreover have "length mask_values = 16"
    by (simp add: mask_values_def)
  moreover have "distinct mask_values"
    by (simp add: mask_values_def)
  ultimately show ?thesis
    by blast
qed

theorem mask_removes_listed_witness:
  "''qa'' \<in> set [''dates'', ''qa''] \<and>
   (\<exists>d. mask \<lparr>columns = [''dates'', ''qa''],
               rows = [(0, \<lambda>_. 96), (1, \<lambda>_. 66), (2, \<lambda>_. 1), (3, \<lambda>_. 130 :: int)]\<rparr>
           mask_values ''qa'' = Inr d \<and>
        map (\<lambda>r. r ''qa'') (map snd (rows d)) = [66, 130] \<and>
        map fst (rows d) = [0, 1])"
proof -
  let ?df = "\<lparr>columns = [''dates'', ''qa''],
              rows = [(0, \<lambda>_. 96), (1, \<lambda>_. 66), (2, \<lambda>_. 1), (3, \<lambda>_. 130 :: int)]\<rparr>"
  have col: "''qa'' \<in> set (columns ?df)"
    by simp
  obtain d where d: "mask ?df mask_values ''qa'' = Inr d"
    "map snd (rows d) = filter (\<lambda>r. r ''qa'' \<notin> set mask_values) (map snd (rows ?df))"
    "map fst (rows d) = map int [0..<length (rows d)]"
    using mask_removes_listed [of "''qa''" ?df mask_values] col by blast
  from d(2) have vals: "map snd (rows d) = [\<lambda>_. 66, \<lambda>_. 130]"
    by (simp add: mask_values_def)
  then have "length (rows d) = 2"
    by (metis length_map length_Cons list.size(3) numeral_2_eq_2)
  with d(3) have "map fst (rows d) = [0, 1]"
    by (simp add: upt_rec)
  with d(1) vals show ?thesis
    by auto
qed

text \<open>
  C8. \<open>mask\<close> is idempotent: masking the result of \<open>mask\<close> again, with the same values
  and the same column, returns that result unchanged (and a call that raises, raises).
\<close>

theorem mask_idempotent:
  "(case mask df vals mask_field of Inl e \<Rightarrow> Inl e | Inr d \<Rightarrow> mask d vals mask_field) =
     mask df vals mask_field"
proof (cases "mask_field \<in> set (columns df)")
  case False
  then show ?thesis
    by (simp add: mask_def getitem_col_def)
next
  case True
  let ?kept = "filter (\<lambda>r. r mask_field \<notin> set vals) (map snd (rows df))"
  let ?d = "df\<lparr>rows := zip (map int [0..<length ?kept]) ?kept\<rparr>"
  have first: "mask df vals mask_field = Inr ?d"
    using True by (rule mask_eq)
  have "mask_field \<in> set (columns ?d)"
    using True by simp
  then have "mask ?d vals mask_field =
      Inr (?d\<lparr>rows := zip (map int [0..<length (filter (\<lambda>r. r mask_field \<notin> set vals) (map snd (rows ?d)))])
                          (filter (\<lambda>r. r mask_field \<notin> set vals) (map snd (rows ?d)))\<rparr>)"
    by (rule mask_eq)
  moreover have "filter (\<lambda>r. r mask_field \<notin> set vals) (map snd (rows ?d)) = ?kept"
    by (simp add: rows_relabelled)
  ultimately have "mask ?d vals mask_field = Inr ?d"
    by simp
  with first show ?thesis
    by simp
qed

subsection \<open>Calendar arithmetic\<close>

lemma valid_date_fields:
  "valid_date t \<longleftrightarrow>
     1 \<le> year t \<and> year t \<le> 9999 \<and> 1 \<le> month t \<and> month t \<le> 12 \<and>
     1 \<le> day t \<and> day t \<le> days_in_month (year t) (month t)"
  by (auto simp: valid_date_def datetime_new_def)

lemma month_cases:
  assumes "1 \<le> m" "m \<le> 12"
  shows "m = 1 \<or> m = 2 \<or> m = 3 \<or> m = 4 \<or> m = 5 \<or> m = 6 \<or>
         m = 7 \<or> m = 8 \<or> m = 9 \<or> m = 10 \<or> m = 11 \<or> m = (12 :: int)"
  using assms by arith

lemma days_in_month_bounds:
  assumes "1 \<le> m" "m \<le> 12"
  shows "28 \<le> days_in_month y m" and "days_in_month y m \<le> 31"
  using month_cases [OF assms] by (auto simp: days_in_month_def)

lemma days_before_month_bounds:
  assumes "1 \<le> m" "m \<le> 12"
  shows "0 \<le> days_before_month y m" and "days_before_month y m \<le> 335"
  using month_cases [OF assms] by (auto simp: days_before_month_def)

lemma days_before_next_month:
  assumes "1 \<le> m" "m < 12"
  shows "days_before_month y (m + 1) = days_before_month y m + days_in_month y m"
proof -
  from assms have "1 \<le> m" "m \<le> 12" "m \<noteq> 12"
    by simp_all
  with month_cases [of m] show ?thesis
    by (auto simp: days_before_month_def days_in_month_def)
qed

lemma days_before_december: "days_before_month y 12 + days_in_month y 12 = (if is_leap y then 366 else 365)"
  by (simp add: days_before_month_def days_in_month_def)

lemma div_step:
  fixes y k :: int
  assumes "0 < k"
  shows "y div k = (y - 1) div k + (if y mod k = 0 then 1 else 0)"
proof (cases "y mod k = 0")
  case True
  have "y = k * (y div k) + y mod k"
    by simp
  with True have "y - 1 = k * (y div k - 1) + (k - 1)"
    by (simp add: algebra_simps)
  then have "(y - 1) div k = y div k - 1"
    using assms by (intro int_div_pos_eq [where r = "k - 1"]) simp_all
  with True show ?thesis
    by simp
next
  case False
  from assms have "0 \<le> y mod k"
    by simp
  with False have "0 < y mod k"
    by simp
  moreover have "y mod k < k"
    using assms by simp
  moreover have "y - 1 = k * (y div k) + (y mod k - 1)"
    by simp
  ultimately have "(y - 1) div k = y div k"
    by (intro int_div_pos_eq [where r = "y mod k - 1"]) simp_all
  with False show ?thesis
    by simp
qed

lemma leap_day_count:
  fixes y :: int
  shows "(if y mod 4 = 0 then 1 else 0) - (if y mod 100 = 0 then 1 else 0)
           + (if y mod 400 = 0 then 1 else (0 :: int)) = (if is_leap y then 1 else 0)"
proof -
  have "y mod 400 = 0 \<Longrightarrow> y mod 100 = 0"
    using mod_mod_cancel [of 100 400 y] by simp
  moreover have "y mod 100 = 0 \<Longrightarrow> y mod 4 = 0"
    using mod_mod_cancel [of 4 100 y] by simp
  ultimately show ?thesis
    unfolding is_leap_def by (cases "y mod 4 = 0"; cases "y mod 100 = 0"; cases "y mod 400 = 0") simp_all
qed

lemma days_before_next_year:
  "days_before_year (y + 1) = days_before_year y + (if is_leap y then 366 else 365)"
proof -
  define p4 p100 p400 where "p4 = (y - 1) div 4" and "p100 = (y - 1) div 100"
    and "p400 = (y - 1) div 400"
  define a b c :: int where "a = (if y mod 4 = 0 then 1 else 0)"
    and "b = (if y mod 100 = 0 then 1 else 0)" and "c = (if y mod 400 = 0 then 1 else 0)"
  have d: "y div 4 = p4 + a" "y div 100 = p100 + b" "y div 400 = p400 + c"
    unfolding p4_def p100_def p400_def a_def b_def c_def by (rule div_step, simp)+
  have "days_before_year (y + 1) = y * 365 + y div 4 - y div 100 + y div 400"
    by (simp only: days_before_year_def add_diff_cancel_right')
  then have n1: "days_before_year (y + 1) = y * 365 + (p4 + a) - (p100 + b) + (p400 + c)"
    by (simp only: d)
  have n0: "days_before_year y = (y - 1) * 365 + p4 - p100 + p400"
    by (simp only: days_before_year_def p4_def p100_def p400_def)
  have leap: "a - b + c = (if is_leap y then 1 else 0)"
    unfolding a_def b_def c_def by (rule leap_day_count)
  have "days_before_year (y + 1) = days_before_year y + 365 + (a - b + c)"
    unfolding n1 n0 by (simp add: algebra_simps)
  with leap show ?thesis
    by simp
qed

lemma toordinal_next_day:
  assumes "valid_date t"
  shows "toordinal (next_day t) = toordinal t + 1"
proof -
  from assms have f: "1 \<le> month t" "month t \<le> 12" "day t \<le> days_in_month (year t) (month t)"
    by (simp_all add: valid_date_fields)
  show ?thesis
  proof (cases "day t < days_in_month (year t) (month t)")
    case True
    then show ?thesis
      by (simp add: next_day_def toordinal_def)
  next
    case last: False
    with f(3) have d: "day t = days_in_month (year t) (month t)"
      by simp
    show ?thesis
    proof (cases "month t < 12")
      case True
      with f(1) have "days_before_month (year t) (month t + 1) =
          days_before_month (year t) (month t) + days_in_month (year t) (month t)"
        by (rule days_before_next_month)
      with True last d show ?thesis
        by (simp add: next_day_def toordinal_def)
    next
      case False
      with f(2) have m: "month t = 12"
        by simp
      have "days_before_month (year t + 1) 1 = 0"
        by (simp add: days_before_month_def)
      with m last d days_before_december [of "year t"] days_before_next_year [of "year t"]
      show ?thesis
        by (simp add: next_day_def toordinal_def)
    qed
  qed
qed

lemma days_before_year_mono: "y \<le> z \<Longrightarrow> days_before_year y \<le> days_before_year z"
proof (induction z rule: int_ge_induct)
  case base
  show ?case by simp
next
  case (step i)
  then show ?case
    by (simp add: days_before_next_year)
qed

lemma toordinal_bounds:
  assumes "valid_date t"
  shows "1 \<le> toordinal t" and "toordinal t \<le> 3652061"
proof -
  from assms have f: "1 \<le> year t" "year t \<le> 9999" "1 \<le> month t" "month t \<le> 12"
    "1 \<le> day t" "day t \<le> days_in_month (year t) (month t)"
    by (simp_all add: valid_date_fields)
  have "days_before_year 1 \<le> days_before_year (year t)"
    using f(1) by (rule days_before_year_mono)
  moreover have "days_before_year 1 = 0"
    by (simp add: days_before_year_def)
  moreover have "days_before_year (year t) \<le> days_before_year 9999"
    using f(2) by (rule days_before_year_mono)
  moreover have "days_before_year 9999 = 3651694"
    by (simp add: days_before_year_def)
  moreover have "0 \<le> days_before_month (year t) (month t)"
    "days_before_month (year t) (month t) \<le> 335"
    using f(3,4) by (rule days_before_month_bounds)+
  moreover have "days_in_month (year t) (month t) \<le> 31"
    using f(3,4) by (rule days_in_month_bounds)
  ultimately show "1 \<le> toordinal t" and "toordinal t \<le> 3652061"
    using f(5,6) by (simp_all add: toordinal_def)
qed

subsection \<open>nearest\_date\<close>

lemma argmin_from_first_min:
  assumes "mi < length pre" "pre ! mi = mv"
    and "\<forall>j<length pre. mv \<le> pre ! j" and "\<forall>j<mi. mv < pre ! j"
  shows "argmin_from xs (length pre) mv mi < length (pre @ xs) \<and>
         (\<forall>j<length (pre @ xs). (pre @ xs) ! argmin_from xs (length pre) mv mi \<le> (pre @ xs) ! j) \<and>
         (\<forall>j<argmin_from xs (length pre) mv mi.
             (pre @ xs) ! argmin_from xs (length pre) mv mi < (pre @ xs) ! j)"
  using assms
proof (induction xs arbitrary: pre mv mi)
  case Nil
  then show ?case by simp
next
  case (Cons x xs)
  show ?case
  proof (cases "x < mv")
    case True
    have "length pre < length (pre @ [x])" by simp
    moreover have "(pre @ [x]) ! length pre = x" by simp
    moreover have "\<forall>j<length (pre @ [x]). x \<le> (pre @ [x]) ! j"
      using True Cons.prems(3) by (auto simp: nth_append less_Suc_eq)
    moreover have "\<forall>j<length pre. x < (pre @ [x]) ! j"
      using True Cons.prems(3) by (auto simp: nth_append)
    ultimately have "argmin_from xs (length (pre @ [x])) x (length pre) < length ((pre @ [x]) @ xs) \<and>
         (\<forall>j<length ((pre @ [x]) @ xs). ((pre @ [x]) @ xs) ! argmin_from xs (length (pre @ [x])) x (length pre) \<le> ((pre @ [x]) @ xs) ! j) \<and>
         (\<forall>j<argmin_from xs (length (pre @ [x])) x (length pre).
             ((pre @ [x]) @ xs) ! argmin_from xs (length (pre @ [x])) x (length pre) < ((pre @ [x]) @ xs) ! j)"
      by (rule Cons.IH)
    with True show ?thesis by simp
  next
    case False
    have "mi < length (pre @ [x])" using Cons.prems(1) by simp
    moreover have "(pre @ [x]) ! mi = mv"
      using Cons.prems(1,2) by (simp add: nth_append)
    moreover have "\<forall>j<length (pre @ [x]). mv \<le> (pre @ [x]) ! j"
      using False Cons.prems(3) by (auto simp: nth_append less_Suc_eq)
    moreover have "\<forall>j<mi. mv < (pre @ [x]) ! j"
      using Cons.prems(1,4) by (auto simp: nth_append)
    ultimately have "argmin_from xs (length (pre @ [x])) mv mi < length ((pre @ [x]) @ xs) \<and>
         (\<forall>j<length ((pre @ [x]) @ xs). ((pre @ [x]) @ xs) ! argmin_from xs (length (pre @ [x])) mv mi \<le> ((pre @ [x]) @ xs) ! j) \<and>
         (\<forall>j<argmin_from xs (length (pre @ [x])) mv mi.
             ((pre @ [x]) @ xs) ! argmin_from xs (length (pre @ [x])) mv mi < ((pre @ [x]) @ xs) ! j)"
      by (rule Cons.IH)
    with False show ?thesis by simp
  qed
qed

lemma np_argmin_first_min:
  assumes "ys \<noteq> []"
  shows "\<exists>i. np_argmin ys = Inr i \<and> i < length ys \<and>
             (\<forall>j<length ys. ys ! i \<le> ys ! j) \<and> (\<forall>j<i. ys ! i < ys ! j)"
proof -
  from assms obtain x xs where ys: "ys = x # xs" by (cases ys) auto
  have "argmin_from xs (length [x]) x 0 < length ([x] @ xs) \<and>
         (\<forall>j<length ([x] @ xs). ([x] @ xs) ! argmin_from xs (length [x]) x 0 \<le> ([x] @ xs) ! j) \<and>
         (\<forall>j<argmin_from xs (length [x]) x 0.
             ([x] @ xs) ! argmin_from xs (length [x]) x 0 < ([x] @ xs) ! j)"
    by (rule argmin_from_first_min) simp_all
  then show ?thesis by (simp add: ys)
qed

lemma wrap64_in_range: "- (2 ^ 63) \<le> x \<Longrightarrow> x < 2 ^ 63 \<Longrightarrow> wrap64 x = x"
  by (simp add: wrap64_def)

lemma distance_no_wrap:
  assumes "valid_date t" "- (2 ^ 62) \<le> sint x" "sint x \<le> 2 ^ 62"
  shows "wrap64 \<bar>wrap64 (sint x - toordinal t)\<bar> = \<bar>sint x - toordinal t\<bar>"
proof -
  from assms(1) have "1 \<le> toordinal t" "toordinal t \<le> 3652061"
    by (rule toordinal_bounds)+
  with assms(2,3) have d: "- (2 ^ 63) < sint x - toordinal t" "sint x - toordinal t < 2 ^ 63"
    by simp_all
  then have "wrap64 (sint x - toordinal t) = sint x - toordinal t"
    by (intro wrap64_in_range) simp_all
  moreover from d have "wrap64 \<bar>sint x - toordinal t\<bar> = \<bar>sint x - toordinal t\<bar>"
    by (intro wrap64_in_range) simp_all
  ultimately show ?thesis
    by simp
qed

text \<open>
  C9. For a non-empty array of ordinal day counts (int64 entries of magnitude at most
  \<open>2 ^ 62\<close>, as every ordinal of a date is, so that no difference wraps around) and a
  target date that exists in the calendar, \<open>nearest_date\<close> returns an index of the
  array at which the absolute difference to the target's ordinal is minimal, and every
  earlier entry is strictly farther from the target: among the closest entries it is the
  first.  The ordinal is the day count of the calendar: 0001-01-01 is day 1, 1970-01-01
  is day 719163, and every date's next day has the next ordinal.
\<close>

theorem nearest_date_first_closest:
  "(array \<noteq> [] \<and> (\<forall>x\<in>set array. - (2 ^ 62) \<le> sint x \<and> sint x \<le> 2 ^ 62) \<and>
    datetime_new y m d = Inr t \<longrightarrow>
      (\<exists>i. nearest_date array (y, m, d) = Inr i \<and> i < length array \<and>
           (\<forall>j<length array.
               \<bar>sint (array ! i) - toordinal t\<bar> \<le> \<bar>sint (array ! j) - toordinal t\<bar>) \<and>
           (\<forall>j<i. \<bar>sint (array ! i) - toordinal t\<bar> < \<bar>sint (array ! j) - toordinal t\<bar>))) \<and>
   toordinal \<lparr>year = 1, month = 1, day = 1\<rparr> = 1 \<and>
   toordinal \<lparr>year = 1970, month = 1, day = 1\<rparr> = 719163 \<and>
   (valid_date t' \<longrightarrow> toordinal (next_day t') = toordinal t' + 1)"
proof (intro conjI impI)
  assume h: "array \<noteq> [] \<and> (\<forall>x\<in>set array. - (2 ^ 62) \<le> sint x \<and> sint x \<le> 2 ^ 62) \<and>
    datetime_new y m d = Inr t"
  then have ne: "array \<noteq> []" and date: "datetime_new y m d = Inr t"
    by simp_all
  from date have valid: "valid_date t"
    by (auto simp: valid_date_def datetime_new_def split: if_splits)
  let ?ys = "map (\<lambda>x. wrap64 \<bar>wrap64 (sint x - toordinal t)\<bar>) array"
  have dist: "?ys ! j = \<bar>sint (array ! j) - toordinal t\<bar>" if "j < length array" for j
  proof -
    from that have "array ! j \<in> set array"
      by simp
    with h have "- (2 ^ 62) \<le> sint (array ! j)" "sint (array ! j) \<le> 2 ^ 62"
      by blast+
    with valid have "wrap64 \<bar>wrap64 (sint (array ! j) - toordinal t)\<bar> = \<bar>sint (array ! j) - toordinal t\<bar>"
      by (rule distance_no_wrap)
    with that show ?thesis
      by simp
  qed
  from ne have "?ys \<noteq> []"
    by simp
  then obtain i where i: "np_argmin ?ys = Inr i" "i < length ?ys"
    "\<forall>j<length ?ys. ?ys ! i \<le> ?ys ! j" "\<forall>j<i. ?ys ! i < ?ys ! j"
    using np_argmin_first_min by blast
  have "nearest_date array (y, m, d) = Inr i"
    using date i(1) by (simp add: nearest_date_def)
  moreover have len: "i < length array"
    using i(2) by simp
  moreover have "\<forall>j<length array. \<bar>sint (array ! i) - toordinal t\<bar> \<le> \<bar>sint (array ! j) - toordinal t\<bar>"
  proof (intro allI impI)
    fix j assume j: "j < length array"
    with i(3) have "?ys ! i \<le> ?ys ! j"
      by simp
    then show "\<bar>sint (array ! i) - toordinal t\<bar> \<le> \<bar>sint (array ! j) - toordinal t\<bar>"
      by (simp only: dist [OF len] dist [OF j])
  qed
  moreover have "\<forall>j<i. \<bar>sint (array ! i) - toordinal t\<bar> < \<bar>sint (array ! j) - toordinal t\<bar>"
  proof (intro allI impI)
    fix j assume j: "j < i"
    with len have jl: "j < length array"
      by simp
    from j i(4) have "?ys ! i < ?ys ! j"
      by simp
    then show "\<bar>sint (array ! i) - toordinal t\<bar> < \<bar>sint (array ! j) - toordinal t\<bar>"
      by (simp only: dist [OF len] dist [OF jl])
  qed
  ultimately show "\<exists>i. nearest_date array (y, m, d) = Inr i \<and> i < length array \<and>
           (\<forall>j<length array.
               \<bar>sint (array ! i) - toordinal t\<bar> \<le> \<bar>sint (array ! j) - toordinal t\<bar>) \<and>
           (\<forall>j<i. \<bar>sint (array ! i) - toordinal t\<bar> < \<bar>sint (array ! j) - toordinal t\<bar>)"
    by blast
next
  show "toordinal \<lparr>year = 1, month = 1, day = 1\<rparr> = 1"
    by (simp add: toordinal_def days_before_year_def days_before_month_def)
next
  show "toordinal \<lparr>year = 1970, month = 1, day = 1\<rparr> = 719163"
    by (simp add: toordinal_def days_before_year_def days_before_month_def)
next
  assume "valid_date t'"
  then show "toordinal (next_day t') = toordinal t' + 1"
    by (rule toordinal_next_day)
qed

theorem nearest_date_first_closest_witness:
  "[1, 5, 10] \<noteq> ([] :: 64 word list) \<and>
   datetime_new 1 1 6 = Inr \<lparr>year = 1, month = 1, day = 6\<rparr> \<and>
   toordinal \<lparr>year = 1, month = 1, day = 6\<rparr> = 6 \<and>
   nearest_date [1, 5, 10] (1, 1, 6) = Inr 1 \<and>
   (\<exists>i. nearest_date [1, 5, 10] (1, 1, 6) = Inr i \<and> i < length [1, 5, 10 :: 64 word] \<and>
       (\<forall>j<length [1, 5, 10 :: 64 word].
           \<bar>sint ([1, 5, 10 :: 64 word] ! i) - toordinal \<lparr>year = 1, month = 1, day = 6\<rparr>\<bar>
             \<le> \<bar>sint ([1, 5, 10 :: 64 word] ! j) - toordinal \<lparr>year = 1, month = 1, day = 6\<rparr>\<bar>) \<and>
       (\<forall>j<i. \<bar>sint ([1, 5, 10 :: 64 word] ! i) - toordinal \<lparr>year = 1, month = 1, day = 6\<rparr>\<bar>
             < \<bar>sint ([1, 5, 10 :: 64 word] ! j) - toordinal \<lparr>year = 1, month = 1, day = 6\<rparr>\<bar>)) \<and>
   valid_date \<lparr>year = 2000, month = 2, day = 29\<rparr> \<and>
   next_day \<lparr>year = 2000, month = 2, day = 29\<rparr> = \<lparr>year = 2000, month = 3, day = 1\<rparr> \<and>
   toordinal \<lparr>year = 2000, month = 2, day = 29\<rparr> = 730179 \<and>
   toordinal \<lparr>year = 2000, month = 3, day = 1\<rparr> = 730180 \<and>
   nearest_date [736695, 736754, 736900] (2018, 3, 2) = Inr 1"
proof -
  have ne: "[1, 5, 10] \<noteq> ([] :: 64 word list)"
    by simp
  have small: "\<forall>x\<in>set [1, 5, 10 :: 64 word]. - (2 ^ 62) \<le> sint x \<and> sint x \<le> 2 ^ 62"
    by simp
  have date: "datetime_new 1 1 6 = Inr \<lparr>year = 1, month = 1, day = 6\<rparr>"
    by (simp add: datetime_new_def days_in_month_def is_leap_def)
  have ord: "toordinal \<lparr>year = 1, month = 1, day = 6\<rparr> = 6"
    by (simp add: toordinal_def days_before_year_def days_before_month_def)
  have run: "nearest_date [1, 5, 10] (1, 1, 6) = Inr 1"
    by (simp add: nearest_date_def date ord wrap64_def)
  have leap: "valid_date \<lparr>year = 2000, month = 2, day = 29\<rparr>"
    by (simp add: valid_date_def datetime_new_def days_in_month_def is_leap_def)
  have nxt: "next_day \<lparr>year = 2000, month = 2, day = 29\<rparr> = \<lparr>year = 2000, month = 3, day = 1\<rparr>"
    by (simp add: next_day_def days_in_month_def is_leap_def)
  have o29: "toordinal \<lparr>year = 2000, month = 2, day = 29\<rparr> = 730179"
    by (simp add: toordinal_def days_before_year_def days_before_month_def is_leap_def)
  note inst = nearest_date_first_closest [of "[1, 5, 10]" 1 1 6 "\<lparr>year = 1, month = 1, day = 6\<rparr>"
      "\<lparr>year = 2000, month = 2, day = 29\<rparr>"]
  from inst ne small date have closest:
    "\<exists>i. nearest_date [1, 5, 10] (1, 1, 6) = Inr i \<and> i < length [1, 5, 10 :: 64 word] \<and>
       (\<forall>j<length [1, 5, 10 :: 64 word].
           \<bar>sint ([1, 5, 10 :: 64 word] ! i) - toordinal \<lparr>year = 1, month = 1, day = 6\<rparr>\<bar>
             \<le> \<bar>sint ([1, 5, 10 :: 64 word] ! j) - toordinal \<lparr>year = 1, month = 1, day = 6\<rparr>\<bar>) \<and>
       (\<forall>j<i. \<bar>sint ([1, 5, 10 :: 64 word] ! i) - toordinal \<lparr>year = 1, month = 1, day = 6\<rparr>\<bar>
             < \<bar>sint ([1, 5, 10 :: 64 word] ! j) - toordinal \<lparr>year = 1, month = 1, day = 6\<rparr>\<bar>)"
    by blast
  from inst leap have "toordinal (next_day \<lparr>year = 2000, month = 2, day = 29\<rparr>) =
      toordinal \<lparr>year = 2000, month = 2, day = 29\<rparr> + 1"
    by blast
  with nxt o29 have o1: "toordinal \<lparr>year = 2000, month = 3, day = 1\<rparr> = 730180"
    by simp
  have d18: "datetime_new 2018 3 2 = Inr \<lparr>year = 2018, month = 3, day = 2\<rparr>"
    by (simp add: datetime_new_def days_in_month_def is_leap_def)
  have o18: "toordinal \<lparr>year = 2018, month = 3, day = 2\<rparr> = 736755"
    by (simp add: toordinal_def days_before_year_def days_before_month_def is_leap_def)
  have run18: "nearest_date [736695, 736754, 736900] (2018, 3, 2) = Inr 1"
    by (simp add: nearest_date_def d18 o18 wrap64_def)
  show ?thesis
    using ne date ord run closest leap nxt o29 o1 run18 by (intro conjI)
qed

subsection \<open>assemble\<close>

lemma np_index_less: "np_index n i = Inr k \<Longrightarrow> k < n"
  by (auto simp: np_index_def split: if_splits)

lemma index_on_grid:
  assumes "0 \<le> d" "d < 3000"
  shows "np_index 100 (int_quot30 d) = Inr (nat (d div 30))" and "nat (d div 30) \<le> 99"
proof -
  from assms have "0 \<le> d div 30" "d div 30 < 100"
    by simp_all
  then show "np_index 100 (int_quot30 d) = Inr (nat (d div 30))" and "nat (d div 30) \<le> 99"
    using assms by (simp_all add: np_index_def int_quot30_def)
qed

lemma index_end_relative:
  assumes "- 3030 < d" "d \<le> - 30"
  shows "int_quot30 d < 0"
    and "np_index 100 (int_quot30 d) = Inr (nat (100 + int_quot30 d))"
    and "nat (100 + int_quot30 d) \<le> 99"
proof -
  from assms have "1 \<le> (- d) div 30" "(- d) div 30 \<le> 100"
    by simp_all
  then have q: "int_quot30 d < 0" "- 100 \<le> int_quot30 d"
    using assms by (simp_all add: int_quot30_def)
  then show "int_quot30 d < 0"
    and "np_index 100 (int_quot30 d) = Inr (nat (100 + int_quot30 d))"
    and "nat (100 + int_quot30 d) \<le> 99"
    by (simp_all add: np_index_def add.commute)
qed

lemma index_truncated_to_zero:
  assumes "- 30 < d" "d < 0"
  shows "int_quot30 d = 0" and "np_index 100 (int_quot30 d) = Inr 0"
proof -
  from assms have "(- d) div 30 = 0"
    by simp
  then show "int_quot30 d = 0"
    using assms by (simp add: int_quot30_def)
  then show "np_index 100 (int_quot30 d) = Inr 0"
    by (simp add: np_index_def)
qed

lemma shape100_zeros: "shape100 (np_zeros 100 100)"
  by (simp add: shape100_def np_zeros_def list_all_iff)

lemma shape100_update:
  assumes "shape100 g" "r < 100" 
  shows "shape100 (g[r := (g ! r)[c := v]])"
proof -
  from assms have "length (g ! r) = 100"
    by (simp add: shape100_def list_all_length)
  with assms show ?thesis
    by (simp add: shape100_def list_all_length nth_list_update)
qed

lemma np_setitem2_in_range:
  assumes "shape100 g" "np_index 100 row = Inr r" "np_index 100 col = Inr c"
    and "- (2 ^ 63) \<le> v" "v < 2 ^ 63"
  shows "np_setitem2 g row col v = Inr (g[r := (g ! r)[c := v]])"
proof -
  from assms(2) have "r < 100"
    by (rule np_index_less)
  with assms(1) have "length g = 100" "length (g ! r) = 100"
    by (simp_all add: shape100_def list_all_length)
  with assms(2-) show ?thesis
    by (simp add: np_setitem2_def)
qed

lemma landing_index:
  assumes "on_grid d \<or> before_origin d"
  shows "np_index 100 (int_quot30 d) = Inr (landing d)" and "landing d < 100"
proof -
  consider "0 \<le> d" "d < 3000" | "- 3030 < d" "d \<le> - 30" | "- 30 < d" "d < 0"
    using assms by (cases "d \<le> - 30") (auto simp: on_grid_def before_origin_def)
  then have "np_index 100 (int_quot30 d) = Inr (landing d) \<and> landing d < 100"
  proof cases
    case 1
    then have "np_index 100 (int_quot30 d) = Inr (nat (d div 30))" "nat (d div 30) \<le> 99"
      by (rule index_on_grid)+
    with 1 show ?thesis
      by (simp add: landing_def)
  next
    case 2
    then have "int_quot30 d < 0" "np_index 100 (int_quot30 d) = Inr (nat (100 + int_quot30 d))"
      "nat (100 + int_quot30 d) \<le> 99"
      by (rule index_end_relative)+
    moreover from 2 have "nat (100 + int_quot30 d) = 100 - nat ((- d) div 30)"
      by (simp add: int_quot30_def nat_diff_distrib')
    ultimately show ?thesis
      using 2 by (simp add: landing_def)
  next
    case 3
    then have "np_index 100 (int_quot30 d) = Inr 0"
      by (rule index_truncated_to_zero)
    with 3 show ?thesis
      by (simp add: landing_def)
  qed
  then show "np_index 100 (int_quot30 d) = Inr (landing d)" and "landing d < 100"
    by simp_all
qed

lemma cell_update_twice:
  "(g[r := (g ! r)[c := v]])[r := (g[r := (g ! r)[c := v]] ! r)[c := v]] = g[r := (g ! r)[c := v]]"
  by (cases "r < length g") (simp_all add: list_update_beyond)

lemma band_value_read:
  "data b = Some vs \<Longrightarrow> seq_getitem vs ind = Inr v \<Longrightarrow> band_value data ind b = v"
  by (simp add: band_value_def)

lemma write_bands_grids:
  assumes "np_index 100 row = Inr r" "np_index 100 col = Inr c"
    and "\<forall>b\<in>set bs. readable data ind b"
    and "set bs \<subseteq> B"
    and "\<forall>b. out b = (if b \<in> B then Some (G b) else None)"
    and "\<forall>b\<in>B. shape100 (G b)"
  shows "\<exists>out'. write_bands out data ind row col bs = Inr out' \<and>
           (\<forall>b. out' b =
              (if b \<in> B
               then Some (if b \<in> set bs then (G b)[r := (G b ! r)[c := band_value data ind b]]
                          else G b)
               else None))"
  using assms(3-)
proof (induction bs arbitrary: out G)
  case Nil
  then show ?case by simp
next
  case (Cons b bs)
  let ?u = "\<lambda>g b'. g[r := (g ! r)[c := band_value data ind b']]"
  from Cons.prems(1) have "readable data ind b"
    by simp
  then obtain vs v where rd: "data b = Some vs" "seq_getitem vs ind = Inr v"
    "- (2 ^ 63) \<le> v" "v < 2 ^ 63"
    by (auto simp: readable_def split: option.splits sum.splits)
  then have bv: "band_value data ind b = v"
    by (simp add: band_value_read)
  from Cons.prems(2) have b: "b \<in> B"
    by simp
  with Cons.prems(3,4) have g: "out b = Some (G b)" "shape100 (G b)"
    by simp_all
  have set: "np_setitem2 (G b) row col v = Inr (?u (G b) b)"
    using g(2) assms(1,2) rd(3,4) bv by (simp add: np_setitem2_in_range)
  have r: "r < 100"
    using assms(1) by (rule np_index_less)
  let ?G = "G(b := ?u (G b) b)"
  have out1: "\<forall>b'. (out(b \<mapsto> ?u (G b) b)) b' = (if b' \<in> B then Some (?G b') else None)"
    using Cons.prems(3) b by simp
  have sh1: "\<forall>b'\<in>B. shape100 (?G b')"
    using Cons.prems(4) g(2) r by (simp add: shape100_update)
  have "\<forall>b\<in>set bs. readable data ind b" "set bs \<subseteq> B"
    using Cons.prems(1,2) by simp_all
  then obtain out' where out': "write_bands (out(b \<mapsto> ?u (G b) b)) data ind row col bs = Inr out'"
    "\<forall>b'. out' b' = (if b' \<in> B then Some (if b' \<in> set bs then ?u (?G b') b' else ?G b') else None)"
    using Cons.IH [OF _ _ out1 sh1] by blast
  have "write_bands out data ind row col (b # bs) = Inr out'"
    by (simp add: rd g(1) set out'(1))
  moreover have "\<forall>b'. out' b' =
      (if b' \<in> B then Some (if b' \<in> set (b # bs) then ?u (G b') b' else G b') else None)"
  proof
    fix b'
    show "out' b' =
      (if b' \<in> B then Some (if b' \<in> set (b # bs) then ?u (G b') b' else G b') else None)"
    proof (cases "b' = b")
      case True
      have "?u (?u (G b) b) b = ?u (G b) b"
        by (rule cell_update_twice)
      with True out'(2) show ?thesis
        by simp
    next
      case False
      with out'(2) show ?thesis
        by simp
    qed
  qed
  ultimately show ?case
    by blast
qed

lemma written_shape:
  assumes "shape100 g" "offsets_in_reach t"
  shows "shape100 (written g t ind b)"
proof -
  obtain cx cy px py data where t: "t = ((cx, cy, px, py), data)"
    by (metis prod.exhaust)
  from assms(2) have "landing (cy - py) < 100"
    by (intro landing_index) (simp add: offsets_in_reach_def t)
  with assms(1) show ?thesis
    by (simp add: written_def t shape100_update)
qed

lemma assemble_loop_grids:
  assumes "\<forall>t\<in>set ts. offsets_in_reach t \<and> (\<forall>b\<in>set bands. readable (snd t) ind b)"
    and "\<forall>b. out b = (if b \<in> set bands then Some (G b) else None)"
    and "\<forall>b\<in>set bands. shape100 (G b)"
  shows "\<exists>out'. assemble_loop out ts ind bands = Inr out' \<and>
           (\<forall>b. out' b =
              (if b \<in> set bands then Some (foldl (\<lambda>g t. written g t ind b) (G b) ts) else None))"
  using assms
proof (induction ts arbitrary: out G)
  case Nil
  then show ?case by simp
next
  case (Cons t ts)
  obtain cx cy px py data where t: "t = ((cx, cy, px, py), data)"
    by (metis prod.exhaust)
  from Cons.prems(1) have reach: "offsets_in_reach t" and rd: "\<forall>b\<in>set bands. readable data ind b"
    by (simp_all add: t)
  from reach have "on_grid (cy - py) \<or> before_origin (cy - py)"
    and "on_grid (px - cx) \<or> before_origin (px - cx)"
    by (simp_all add: offsets_in_reach_def t)
  then have rc: "np_index 100 (int_quot30 (cy - py)) = Inr (landing (cy - py))"
    "np_index 100 (int_quot30 (px - cx)) = Inr (landing (px - cx))"
    by (simp_all add: landing_index)
  obtain out' where out': "write_bands out data ind (int_quot30 (cy - py)) (int_quot30 (px - cx)) bands = Inr out'"
    "\<forall>b. out' b =
       (if b \<in> set bands
        then Some (if b \<in> set bands
                   then (G b)[landing (cy - py) := (G b ! landing (cy - py))
                                [landing (px - cx) := band_value data ind b]]
                   else G b)
        else None)"
    using write_bands_grids [OF rc rd subset_refl Cons.prems(2,3)] by blast
  let ?G = "\<lambda>b. written (G b) t ind b"
  from out'(2) have out1: "\<forall>b. out' b = (if b \<in> set bands then Some (?G b) else None)"
    by (simp add: written_def t)
  have sh1: "\<forall>b\<in>set bands. shape100 (?G b)"
    using Cons.prems(3) reach by (simp add: written_shape)
  have "\<forall>t\<in>set ts. offsets_in_reach t \<and> (\<forall>b\<in>set bands. readable (snd t) ind b)"
    using Cons.prems(1) by simp
  then have "\<exists>out''. assemble_loop out' ts ind bands = Inr out'' \<and>
           (\<forall>b. out'' b =
              (if b \<in> set bands then Some (foldl (\<lambda>g t. written g t ind b) (?G b) ts) else None))"
    using out1 sh1 by (rule Cons.IH)
  then obtain out'' where o2: "assemble_loop out' ts ind bands = Inr out''"
    "\<forall>b. out'' b =
       (if b \<in> set bands then Some (foldl (\<lambda>g t. written g t ind b) (?G b) ts) else None)"
    by blast
  have "assemble_loop out (t # ts) ind bands = Inr out''"
    by (simp add: t out'(1) o2(1))
  moreover have "\<forall>b. out'' b =
       (if b \<in> set bands then Some (foldl (\<lambda>g t. written g t ind b) (G b) (t # ts)) else None)"
    using o2(2) by simp
  ultimately show ?case
    by blast
qed

lemma initial_out:
  "map_of (map (\<lambda>b. (b, np_zeros 100 100)) bands) b =
     (if b \<in> set bands then Some (np_zeros 100 100) else None)"
  by (induction bands) auto

lemma assemble_grids:
  assumes "\<forall>t\<in>set ts. offsets_in_reach t \<and> (\<forall>b\<in>set bands. readable (snd t) ind b)"
  shows "\<exists>out. assemble ts ind bands = Inr out \<and>
           (\<forall>b. out b =
              (if b \<in> set bands
               then Some (foldl (\<lambda>g t. written g t ind b) (np_zeros 100 100) ts) else None))"
proof -
  have "\<forall>b. map_of (map (\<lambda>b. (b, np_zeros 100 100)) bands) b =
     (if b \<in> set bands then Some (np_zeros 100 100) else None)"
    by (simp add: initial_out)
  moreover have "\<forall>b\<in>set bands. shape100 (np_zeros 100 100)"
    by (simp add: shape100_zeros)
  ultimately show ?thesis
    unfolding assemble_def using assms by (intro assemble_loop_grids)
qed

lemma written_shape_fold:
  assumes "shape100 g" "\<forall>t\<in>set ts. offsets_in_reach t"
  shows "shape100 (foldl (\<lambda>g t. written g t ind b) g ts)"
  using assms by (induction ts arbitrary: g) (simp_all add: written_shape)

lemma written_read_back:
  assumes "shape100 g" "offsets_in_reach ((cx, cy, px, py), data)"
  shows "np_getitem2 (written g ((cx, cy, px, py), data) ind b)
           (int_quot30 (cy - py)) (int_quot30 (px - cx)) = Inr (band_value data ind b)"
proof -
  from assms(2) have "on_grid (cy - py) \<or> before_origin (cy - py)"
    and "on_grid (px - cx) \<or> before_origin (px - cx)"
    by (simp_all add: offsets_in_reach_def)
  then have rc: "np_index 100 (int_quot30 (cy - py)) = Inr (landing (cy - py))"
    "landing (cy - py) < 100"
    "np_index 100 (int_quot30 (px - cx)) = Inr (landing (px - cx))"
    "landing (px - cx) < 100"
    by (simp_all add: landing_index)
  from assms(1) rc(2) have len: "length g = 100" "length (g ! landing (cy - py)) = 100"
    by (simp_all add: shape100_def list_all_length)
  with rc show ?thesis
    by (simp add: np_getitem2_def seq_getitem_def written_def)
qed

lemma assemble_one:
  assumes "np_index 100 (int_quot30 (cy - py)) = Inr r"
    and "np_index 100 (int_quot30 (px - cx)) = Inr c"
    and "data b = Some vs" "seq_getitem vs ind = Inr v" "- (2 ^ 63) \<le> v" "v < 2 ^ 63"
  shows "assemble [((cx, cy, px, py), data)] ind [b] =
           Inr [b \<mapsto> (np_zeros 100 100)[r := (replicate 100 0)[c := v]]]"
proof -
  have r: "r < 100"
    using assms(1) by (rule np_index_less)
  have "np_setitem2 (np_zeros 100 100) (int_quot30 (cy - py)) (int_quot30 (px - cx)) v =
          Inr ((np_zeros 100 100)[r := (np_zeros 100 100 ! r)[c := v]])"
    using shape100_zeros assms(1,2,5,6) by (rule np_setitem2_in_range)
  moreover have "np_zeros 100 100 ! r = replicate 100 0"
    using r by (simp add: np_zeros_def)
  ultimately show ?thesis
    using assms(3,4) by (simp add: assemble_def)
qed

lemma assemble_origin:
  "assemble [((0, 0, 0, 0), [''B1'' \<mapsto> [42]])] 0 [''B1''] =
     Inr [''B1'' \<mapsto> (np_zeros 100 100)[0 := (replicate 100 0)[0 := 42]]]"
proof -
  have idx: "np_index 100 (int_quot30 (0 - 0)) = Inr 0"
    by (simp add: np_index_def int_quot30_def)
  have val: "[''B1'' \<mapsto> [42 :: int]] ''B1'' = Some [42]" "seq_getitem [42 :: int] 0 = Inr 42"
    "- (2 ^ 63) \<le> (42 :: int)" "(42 :: int) < 2 ^ 63"
    by (simp_all add: seq_getitem_def np_index_def)
  show ?thesis
    using idx idx val by (rule assemble_one)
qed

lemma origin_grid_cells:
  assumes "0 \<le> r" "r < 100" "0 \<le> c" "c < 100"
  shows "np_getitem2 ((np_zeros 100 100)[0 := (replicate 100 0)[0 := 42]]) r c =
           Inr (if r = 0 \<and> c = 0 then 42 else 0)"
proof (cases "r = 0")
  case True
  have "np_getitem2 ((np_zeros 100 100)[0 := (replicate 100 0)[0 := 42]]) 0 c =
          seq_getitem ((replicate 100 0)[0 := 42]) c"
    by (simp add: np_getitem2_def np_index_def np_zeros_def)
  also have "\<dots> = Inr (if c = 0 then 42 else 0)"
    using assms(3,4) by (simp add: seq_getitem_def np_index_def nth_list_update)
  finally show ?thesis
    using True by simp
next
  case False
  with assms(1,2) have "nat r \<noteq> 0" "nat r < 100"
    by simp_all
  then have "(np_zeros 100 100)[0 := (replicate 100 0)[0 := 42]] ! nat r = replicate 100 0"
    by (simp add: np_zeros_def)
  then have "np_getitem2 ((np_zeros 100 100)[0 := (replicate 100 0)[0 := 42]]) r c =
          seq_getitem (replicate 100 0) c"
    using assms(1,2) by (simp add: np_getitem2_def np_index_def np_zeros_def)
  also have "\<dots> = Inr 0"
    using assms(3,4) by (simp add: seq_getitem_def np_index_def)
  finally show ?thesis
    using False by simp
qed

text \<open>
  C2, as the code has it.  A single record with chip origin (0, 0) and pixel (0, 0), the
  band \<open>B1\<close>, index 0 and the value 42 there: the grid returned for \<open>B1\<close> is 100 by 100,
  it holds 42 in row 0, column 0, and 0 in every other cell.  (Row
  \<open>int((chip_y - y) / 30)\<close> is 0, not 99.)
\<close>

theorem assemble_origin_cell:
  "0 \<le> r \<Longrightarrow> r < 100 \<Longrightarrow> 0 \<le> c \<Longrightarrow> c < 100 \<Longrightarrow>
   \<exists>g. assemble [((0, 0, 0, 0), [''B1'' \<mapsto> [42]])] 0 [''B1''] = Inr [''B1'' \<mapsto> g] \<and>
       shape100 g \<and>
       np_getitem2 g r c = Inr (if r = 0 \<and> c = 0 then 42 else 0)"
proof -
  assume rc: "0 \<le> r" "r < 100" "0 \<le> c" "c < 100"
  let ?g = "(np_zeros 100 100)[0 := (replicate 100 0)[0 := 42]]"
  have "shape100 ((np_zeros 100 100)[0 := (np_zeros 100 100 ! 0)[0 := 42]])"
    using shape100_zeros by (rule shape100_update) simp
  then have "shape100 ?g"
    by (simp add: np_zeros_def)
  with assemble_origin origin_grid_cells [OF rc] show ?thesis
    by blast
qed

theorem assemble_origin_cell_witness:
  "(0 :: int) \<le> 99 \<and> (99 :: int) < 100 \<and> (0 :: int) \<le> 0 \<and> (0 :: int) < 100 \<and>
   (\<exists>g. assemble [((0, 0, 0, 0), [''B1'' \<mapsto> [42]])] 0 [''B1''] = Inr [''B1'' \<mapsto> g] \<and>
        shape100 g \<and> np_getitem2 g 99 0 = Inr 0)"
  using assemble_origin_cell [of 99 0] by simp

text \<open>
  The claim C2 as it is written fails on that input: in the grid returned for \<open>B1\<close>
  the cell \<open>[99][0]\<close> holds 0, and it is the cell \<open>[0][0]\<close> that holds 42.
\<close>

theorem assemble_origin_row_99_counterexample:
  "assemble [((0, 0, 0, 0), [''B1'' \<mapsto> [42]])] 0 [''B1''] =
     Inr [''B1'' \<mapsto> (np_zeros 100 100)[0 := (replicate 100 0)[0 := 42]]] \<and>
   np_getitem2 ((np_zeros 100 100)[0 := (replicate 100 0)[0 := 42]]) 99 0 = Inr 0 \<and>
   np_getitem2 ((np_zeros 100 100)[0 := (replicate 100 0)[0 := 42]]) 99 0 \<noteq> Inr 42 \<and>
   np_getitem2 ((np_zeros 100 100)[0 := (replicate 100 0)[0 := 42]]) 0 0 = Inr 42"
proof -
  have "np_getitem2 ((np_zeros 100 100)[0 := (replicate 100 0)[0 := 42]]) 99 0 = Inr 0"
    using origin_grid_cells [of 99 0] by simp
  moreover have "np_getitem2 ((np_zeros 100 100)[0 := (replicate 100 0)[0 := 42]]) 0 0 = Inr 42"
    using origin_grid_cells [of 0 0] by simp
  ultimately show ?thesis
    using assemble_origin by simp
qed

text \<open>
  C10, as the code has it.  \<open>assemble\<close> checks no coordinate.
  \<^item> For a time series in which every record has both offsets either a multiple of 30
    in \<open>[0, 2970]\<close> or negative and greater than \<open>-3001\<close>, and whose band values can be
    read at \<open>ind\<close>, \<open>assemble\<close> raises nothing, and the grid it returns for a band is
    the grid of zeros after the writes of all the records, in their order: every record
    writes its value of the band at the row where its vertical offset lands and the
    column where its horizontal offset lands, and only there.  The grids stay 100 by
    100.
  \<^item> Reading a grid, after the write of a record, at the row and column index that the
    code computes for that record gives the record's value.
  \<^item> A single record writes its value into the cell that its row and column index
    resolve to.
  \<^item> An offset that is a multiple of 30 in \<open>[0, 2970]\<close> lands at the index
    \<open>offset / 30\<close>, within \<open>[0, 99]\<close>.
  \<^item> A negative offset \<open>d\<close> with \<open>-3001 < d \<le> -30\<close> gives the negative index
    \<open>int(d / 30)\<close> and lands at the position \<open>100 + int(d / 30)\<close>, counted from the
    end, within \<open>[0, 99]\<close>.
  \<^item> A negative offset \<open>d\<close> with \<open>-30 < d\<close> gives the index 0 and lands at position 0,
    as the offset 0 does.
\<close>

theorem assemble_unchecked_offsets:
  "((\<forall>t\<in>set ts. offsets_in_reach t \<and> (\<forall>b\<in>set bands. readable (snd t) ind b)) \<longrightarrow>
      (\<exists>out. assemble ts ind bands = Inr out \<and>
            (\<forall>b. out b =
               (if b \<in> set bands
                then Some (foldl (\<lambda>g t. written g t ind b) (np_zeros 100 100) ts)
                else None)) \<and>
            (\<forall>b\<in>set bands. \<exists>g. out b = Some g \<and> shape100 g))) \<and>
   (shape100 g0 \<and> offsets_in_reach ((cx0, cy0, px0, py0), data0) \<longrightarrow>
      shape100 (written g0 ((cx0, cy0, px0, py0), data0) ind0 b0) \<and>
      np_getitem2 (written g0 ((cx0, cy0, px0, py0), data0) ind0 b0)
        (int_quot30 (cy0 - py0)) (int_quot30 (px0 - cx0)) = Inr (band_value data0 ind0 b0)) \<and>
   (np_index 100 (int_quot30 (cy - py)) = Inr r \<and>
    np_index 100 (int_quot30 (px - cx)) = Inr c \<and>
    data b = Some vs \<and> seq_getitem vs ind' = Inr v \<and> - (2 ^ 63) \<le> v \<and> v < 2 ^ 63 \<longrightarrow>
      assemble [((cx, cy, px, py), data)] ind' [b] =
        Inr [b \<mapsto> (np_zeros 100 100)[r := (replicate 100 0)[c := v]]]) \<and>
   (on_grid d \<longrightarrow>
      np_index 100 (int_quot30 d) = Inr (nat (d div 30)) \<and> nat (d div 30) \<le> 99 \<and>
      landing d = nat (d div 30)) \<and>
   (before_origin e \<and> e \<le> - 30 \<longrightarrow>
      int_quot30 e < 0 \<and>
      np_index 100 (int_quot30 e) = Inr (nat (100 + int_quot30 e)) \<and>
      nat (100 + int_quot30 e) \<le> 99 \<and>
      landing e = nat (100 + int_quot30 e)) \<and>
   (before_origin f \<and> - 30 < f \<longrightarrow>
      int_quot30 f = 0 \<and> np_index 100 (int_quot30 f) = Inr 0 \<and> landing f = 0)"
proof (intro conjI impI)
  assume h: "\<forall>t\<in>set ts. offsets_in_reach t \<and> (\<forall>b\<in>set bands. readable (snd t) ind b)"
  then obtain out where out: "assemble ts ind bands = Inr out"
    "\<forall>b. out b =
       (if b \<in> set bands
        then Some (foldl (\<lambda>g t. written g t ind b) (np_zeros 100 100) ts) else None)"
    using assemble_grids by blast
  from h have "\<forall>t\<in>set ts. offsets_in_reach t"
    by simp
  then have "shape100 (foldl (\<lambda>g t. written g t ind b) (np_zeros 100 100) ts)" for b
    using shape100_zeros by (intro written_shape_fold)
  with out(2) have "\<forall>b\<in>set bands. \<exists>g. out b = Some g \<and> shape100 g"
    by simp
  with out show "\<exists>out. assemble ts ind bands = Inr out \<and>
            (\<forall>b. out b =
               (if b \<in> set bands
                then Some (foldl (\<lambda>g t. written g t ind b) (np_zeros 100 100) ts)
                else None)) \<and>
            (\<forall>b\<in>set bands. \<exists>g. out b = Some g \<and> shape100 g)"
    by blast
next
  assume "shape100 g0 \<and> offsets_in_reach ((cx0, cy0, px0, py0), data0)"
  then show "shape100 (written g0 ((cx0, cy0, px0, py0), data0) ind0 b0)"
    by (simp add: written_shape)
next
  assume "shape100 g0 \<and> offsets_in_reach ((cx0, cy0, px0, py0), data0)"
  then show "np_getitem2 (written g0 ((cx0, cy0, px0, py0), data0) ind0 b0)
        (int_quot30 (cy0 - py0)) (int_quot30 (px0 - cx0)) = Inr (band_value data0 ind0 b0)"
    by (simp add: written_read_back)
next
  assume "np_index 100 (int_quot30 (cy - py)) = Inr r \<and>
    np_index 100 (int_quot30 (px - cx)) = Inr c \<and>
    data b = Some vs \<and> seq_getitem vs ind' = Inr v \<and> - (2 ^ 63) \<le> v \<and> v < 2 ^ 63"
  then show "assemble [((cx, cy, px, py), data)] ind' [b] =
        Inr [b \<mapsto> (np_zeros 100 100)[r := (replicate 100 0)[c := v]]]"
    using assemble_one by blast
next
  assume "on_grid d"
  then have d: "0 \<le> d" "d < 3000"
    by (simp_all add: on_grid_def)
  from d show "np_index 100 (int_quot30 d) = Inr (nat (d div 30))"
    by (rule index_on_grid)
  from d show "nat (d div 30) \<le> 99"
    by (rule index_on_grid)
  from d show "landing d = nat (d div 30)"
    by (simp add: landing_def)
next
  assume "before_origin e \<and> e \<le> - 30"
  then have e: "- 3030 < e" "e \<le> - 30"
    by (simp_all add: before_origin_def)
  from e show "int_quot30 e < 0"
    by (rule index_end_relative)
  from e show "np_index 100 (int_quot30 e) = Inr (nat (100 + int_quot30 e))"
    by (rule index_end_relative)
  from e show "nat (100 + int_quot30 e) \<le> 99"
    by (rule index_end_relative)
  from e show "landing e = nat (100 + int_quot30 e)"
    by (simp add: landing_def int_quot30_def nat_diff_distrib')
next
  assume "before_origin f \<and> - 30 < f"
  then have f: "- 30 < f" "f < 0"
    by (simp_all add: before_origin_def)
  from f show "int_quot30 f = 0"
    by (rule index_truncated_to_zero)
  from f show "np_index 100 (int_quot30 f) = Inr 0"
    by (rule index_truncated_to_zero)
  from f show "landing f = 0"
    by (simp add: landing_def)
qed

theorem assemble_unchecked_offsets_witness:
  "offsets_in_reach ((0, 0, 60, - 30), [''B1'' \<mapsto> [7]]) \<and>
   offsets_in_reach ((30, 0, 0, 0), [''B1'' \<mapsto> [9]]) \<and>
   readable [''B1'' \<mapsto> [7]] 0 ''B1'' \<and> readable [''B1'' \<mapsto> [9]] 0 ''B1'' \<and>
   (\<exists>out. assemble [((0, 0, 60, - 30), [''B1'' \<mapsto> [7]]), ((30, 0, 0, 0), [''B1'' \<mapsto> [9]])]
             0 [''B1''] = Inr out \<and>
          out ''B1'' =
            Some ((np_zeros 100 100)[1 := (replicate 100 0)[2 := 7],
                                     0 := (replicate 100 0)[99 := 9]]) \<and>
          out ''B2'' = None) \<and>
   np_getitem2 (written (np_zeros 100 100) ((30, 0, 0, 0), [''B1'' \<mapsto> [9]]) 0 ''B1'')
     (int_quot30 (0 - 0)) (int_quot30 (0 - 30)) = Inr 9 \<and>
   assemble [((30, 0, 0, 0), [''B1'' \<mapsto> [9]])] 0 [''B1''] =
     Inr [''B1'' \<mapsto> (np_zeros 100 100)[0 := (replicate 100 0)[99 := 9]]] \<and>
   on_grid 60 \<and> np_index 100 (int_quot30 60) = Inr 2 \<and> landing 60 = 2 \<and>
   before_origin (- 30) \<and> int_quot30 (- 30) = - 1 \<and> np_index 100 (int_quot30 (- 30)) = Inr 99 \<and>
   landing (- 30) = 99 \<and>
   before_origin (- 15) \<and> int_quot30 (- 15) = 0 \<and> np_index 100 (int_quot30 (- 15)) = Inr 0 \<and>
   landing (- 15) = 0"
proof -
  let ?t1 = "((0, 0, 60, - 30), [''B1'' \<mapsto> [7]]) :: chip_record"
  let ?t2 = "((30, 0, 0, 0), [''B1'' \<mapsto> [9]]) :: chip_record"
  have reach: "offsets_in_reach ?t1" "offsets_in_reach ?t2"
    by (simp_all add: offsets_in_reach_def on_grid_def before_origin_def)
  have rd: "readable [''B1'' \<mapsto> [7]] 0 ''B1''" "readable [''B1'' \<mapsto> [9]] 0 ''B1''"
    by (simp_all add: readable_def seq_getitem_def np_index_def)
  have pre: "\<forall>t\<in>set [?t1, ?t2]. offsets_in_reach t \<and> (\<forall>b\<in>set [''B1'']. readable (snd t) 0 b)"
    using reach rd by simp
  have zeros: "shape100 (np_zeros 100 100)"
    by (rule shape100_zeros)
  have idx: "np_index 100 (int_quot30 (0 - 0)) = Inr 0" "np_index 100 (int_quot30 (0 - 30)) = Inr 99"
    by (simp_all add: np_index_def int_quot30_def)
  have val: "[''B1'' \<mapsto> [9 :: int]] ''B1'' = Some [9]" "seq_getitem [9 :: int] 0 = Inr 9"
    "- (2 ^ 63) \<le> (9 :: int)" "(9 :: int) < 2 ^ 63"
    by (simp_all add: seq_getitem_def np_index_def)
  have bv: "band_value [''B1'' \<mapsto> [9]] 0 ''B1'' = 9"
    by (simp add: band_value_def seq_getitem_def np_index_def)
  have grid: "on_grid 60" "before_origin (- 30)" "- 30 \<le> (- 30 :: int)"
    "before_origin (- 15)" "- 30 < (- 15 :: int)"
    by (simp_all add: on_grid_def before_origin_def)
  have after: "foldl (\<lambda>g t. written g t 0 ''B1'') (np_zeros 100 100) [?t1, ?t2] =
      (np_zeros 100 100)[1 := (replicate 100 0)[2 := 7], 0 := (replicate 100 0)[99 := 9]]"
    by (simp add: written_def landing_def band_value_def seq_getitem_def np_index_def np_zeros_def)
  note inst = assemble_unchecked_offsets [where ts = "[?t1, ?t2]" and bands = "[''B1'']" and ind = 0
      and ?g0.0 = "np_zeros 100 100" and ?cx0.0 = 30 and ?cy0.0 = 0 and ?px0.0 = 0 and ?py0.0 = 0
      and ?data0.0 = "[''B1'' \<mapsto> [9]]" and ?ind0.0 = 0 and ?b0.0 = "''B1''"
      and cx = 30 and cy = 0 and px = 0 and py = 0 and r = 0 and c = 99
      and data = "[''B1'' \<mapsto> [9]]" and b = "''B1''" and vs = "[9]" and ind' = 0 and v = 9
      and d = 60 and e = "- 30" and f = "- 15"]
  from inst pre obtain out where out: "assemble [?t1, ?t2] 0 [''B1''] = Inr out"
    "\<forall>b. out b =
       (if b \<in> set [''B1'']
        then Some (foldl (\<lambda>g t. written g t 0 b) (np_zeros 100 100) [?t1, ?t2]) else None)"
    by blast
  from out(2) have "out ''B1'' = Some (foldl (\<lambda>g t. written g t 0 ''B1'') (np_zeros 100 100) [?t1, ?t2])"
    by simp
  with after have b1: "out ''B1'' =
      Some ((np_zeros 100 100)[1 := (replicate 100 0)[2 := 7], 0 := (replicate 100 0)[99 := 9]])"
    by simp
  from out(2) have b2: "out ''B2'' = None"
    by simp
  from out(1) b1 b2 have series: "\<exists>out. assemble [?t1, ?t2] 0 [''B1''] = Inr out \<and>
          out ''B1'' =
            Some ((np_zeros 100 100)[1 := (replicate 100 0)[2 := 7],
                                     0 := (replicate 100 0)[99 := 9]]) \<and>
          out ''B2'' = None"
    by blast
  from inst zeros reach(2) have "np_getitem2 (written (np_zeros 100 100) ?t2 0 ''B1'')
     (int_quot30 (0 - 0)) (int_quot30 (0 - 30)) = Inr (band_value [''B1'' \<mapsto> [9]] 0 ''B1'')"
    by blast
  with bv have reread: "np_getitem2 (written (np_zeros 100 100) ?t2 0 ''B1'')
     (int_quot30 (0 - 0)) (int_quot30 (0 - 30)) = Inr 9"
    by simp
  have one: "assemble [?t2] 0 [''B1''] =
     Inr [''B1'' \<mapsto> (np_zeros 100 100)[0 := (replicate 100 0)[99 := 9]]]"
    using inst idx val by blast
  from inst grid(1) have "np_index 100 (int_quot30 60) = Inr (nat (60 div 30))"
    "landing 60 = nat (60 div 30)"
    by blast+
  then have g60: "np_index 100 (int_quot30 60) = Inr 2" "landing 60 = 2"
    by simp_all
  have q30: "int_quot30 (- 30) = - 1"
    by (simp add: int_quot30_def)
  from inst grid(2,3) have "np_index 100 (int_quot30 (- 30)) = Inr (nat (100 + int_quot30 (- 30)))"
    "landing (- 30) = nat (100 + int_quot30 (- 30))"
    by blast+
  with q30 have g30: "np_index 100 (int_quot30 (- 30)) = Inr 99" "landing (- 30) = 99"
    by simp_all
  from inst grid(4,5) have g15: "int_quot30 (- 15) = 0" "np_index 100 (int_quot30 (- 15)) = Inr 0"
    "landing (- 15) = 0"
    by blast+
  show ?thesis
    using reach rd series reread one grid(1,2,4) g60 q30 g30 g15 by (intro conjI)
qed

text \<open>
  The claim C10 as it is written fails for a negative offset above \<open>-30\<close>: the pixel
  15 units left of its chip origin gets the column index \<open>int(-0.5) = 0\<close>, which is not
  negative, and its value is written into column 0, the cell of the offset 0, not into
  a position counted from the end.
\<close>

theorem assemble_small_negative_offset_counterexample:
  "before_origin (0 - 15) \<and>
   int_quot30 (0 - 15) = 0 \<and>
   \<not> int_quot30 (0 - 15) < 0 \<and>
   assemble [((15, 0, 0, 0), [''B1'' \<mapsto> [7]])] 0 [''B1''] =
     Inr [''B1'' \<mapsto> (np_zeros 100 100)[0 := (replicate 100 0)[0 := 7]]] \<and>
   assemble [((15, 0, 0, 0), [''B1'' \<mapsto> [7]])] 0 [''B1''] =
     assemble [((0, 0, 0, 0), [''B1'' \<mapsto> [7]])] 0 [''B1'']"
proof -
  have q: "int_quot30 (0 - 15) = 0"
    by (simp add: int_quot30_def)
  have idx: "np_index 100 (int_quot30 (0 - 0)) = Inr 0" "np_index 100 (int_quot30 (0 - 15)) = Inr 0"
    by (simp_all add: np_index_def int_quot30_def)
  have val: "[''B1'' \<mapsto> [7 :: int]] ''B1'' = Some [7]" "seq_getitem [7 :: int] 0 = Inr 7"
    "- (2 ^ 63) \<le> (7 :: int)" "(7 :: int) < 2 ^ 63"
    by (simp_all add: seq_getitem_def np_index_def)
  have a: "assemble [((15, 0, 0, 0), [''B1'' \<mapsto> [7]])] 0 [''B1''] =
     Inr [''B1'' \<mapsto> (np_zeros 100 100)[0 := (replicate 100 0)[0 := 7]]]"
    using idx(1) idx(2) val by (rule assemble_one)
  have b: "assemble [((0, 0, 0, 0), [''B1'' \<mapsto> [7]])] 0 [''B1''] =
     Inr [''B1'' \<mapsto> (np_zeros 100 100)[0 := (replicate 100 0)[0 := 7]]]"
    using idx(1) idx(1) val by (rule assemble_one)
  show ?thesis
    using q a b by (simp add: before_origin_def)
qed

subsection \<open>sort\_on and temporal\<close>

text \<open>
  C3 fails on the code.  On the table of the two rows \<open>v = 1\<close>, \<open>v = 2\<close>, sorted on
  \<open>v\<close> with \<open>ascending=False\<close>: however pandas resolves the bool it receives as
  \<open>axis\<close>, \<open>sort_on\<close> does not return the rows in descending order, and \<open>temporal\<close>
  does as \<open>sort_on\<close> does.  Under pandas 1.x the call returns the rows in ascending
  order, and the call with \<open>ascending=True\<close> raises KeyError.
\<close>

theorem sort_on_descending_not_returned:
  "sort_on ax \<lparr>columns = [''v''], rows = [(0, \<lambda>_. 1), (1, \<lambda>_. 2 :: int)]\<rparr> ''v'' False \<noteq>
     Inr \<lparr>columns = [''v''], rows = [(0, \<lambda>_. 2), (1, \<lambda>_. 1)]\<rparr> \<and>
   temporal ax \<lparr>columns = [''v''], rows = [(0, \<lambda>_. 1), (1, \<lambda>_. 2 :: int)]\<rparr> False ''v'' =
     sort_on ax \<lparr>columns = [''v''], rows = [(0, \<lambda>_. 1), (1, \<lambda>_. 2 :: int)]\<rparr> ''v'' False \<and>
   sort_on pandas_1_axis \<lparr>columns = [''v''], rows = [(0, \<lambda>_. 1), (1, \<lambda>_. 2 :: int)]\<rparr> ''v'' False =
     Inr \<lparr>columns = [''v''], rows = [(0, \<lambda>_. 1), (1, \<lambda>_. 2)]\<rparr> \<and>
   sort_on pandas_1_axis \<lparr>columns = [''v''], rows = [(0, \<lambda>_. 1), (1, \<lambda>_. 2 :: int)]\<rparr> ''v'' True =
     Inl KeyError"
proof -
  let ?t = "\<lparr>columns = [''v''], rows = [(0, \<lambda>_. 1), (1, \<lambda>_. 2 :: int)]\<rparr>"
  have asc: "sort_values ?t ''v'' Axis0 True = Inr ?t"
    by (simp add: sort_values_def)
  have relabel: "reset_index ?t = ?t"
    by (simp add: reset_index_def upt_rec)
  have rows_differ: "(\<lambda>_ :: string. 1 :: int) \<noteq> (\<lambda>_. 2)"
    by (simp add: fun_eq_iff)
  have "sort_on ax ?t ''v'' False \<noteq> Inr \<lparr>columns = [''v''], rows = [(0, \<lambda>_. 2), (1, \<lambda>_. 1)]\<rparr>"
  proof (cases "ax False")
    case (Inl e)
    then show ?thesis
      by (simp add: sort_on_def)
  next
    case (Inr a)
    show ?thesis
    proof (cases a)
      case Axis0
      with Inr asc relabel rows_differ show ?thesis
        by (simp add: sort_on_def)
    next
      case Axis1
      with Inr show ?thesis
        by (simp add: sort_on_def sort_values_def)
    qed
  qed
  moreover have "temporal ax ?t False ''v'' = sort_on ax ?t ''v'' False"
    by (simp add: temporal_def sort_on_def)
  moreover have "sort_on pandas_1_axis ?t ''v'' False = Inr ?t"
    using asc relabel by (simp add: sort_on_def pandas_1_axis_def)
  moreover have "sort_on pandas_1_axis ?t ''v'' True = Inl KeyError"
    by (simp add: sort_on_def pandas_1_axis_def sort_values_def)
  ultimately show ?thesis
    by blast
qed

subsection \<open>years, date\_range and seasons\<close>

lemma shifted_upt_upto: "map (\<lambda>k. a + int k) [0..<n] = [a..a + int n - 1]"
proof (induction n arbitrary: a)
  case 0
  then show ?case by simp
next
  case (Suc n)
  have "map (\<lambda>k. a + int k) [0..<Suc n] = a # map (\<lambda>k. (a + 1) + int k) [0..<n]"
    by (simp add: map_upt_Suc del: upt_Suc)
  also have "\<dots> = a # [a + 1..a + 1 + int n - 1]"
    by (simp only: Suc.IH)
  also have "\<dots> = [a..a + int (Suc n) - 1]"
    by (simp add: upto_rec1 [of a])
  finally show ?case .
qed

lemma unique_seen_set: "set (unique_seen seen xs) = set xs - set seen"
  by (induction xs arbitrary: seen) auto

lemma unique_seen_distinct: "distinct (unique_seen seen xs)"
  by (induction xs arbitrary: seen) (auto simp: unique_seen_set)

lemma unique_set: "set (unique xs) = set xs"
  by (simp add: unique_def unique_seen_set)

lemma unique_distinct: "distinct (unique xs)"
  by (simp add: unique_def unique_seen_distinct)

lemma datetime_new_valid:
  "datetime_new y m d = Inr t \<Longrightarrow> t = \<lparr>year = y, month = m, day = d\<rparr> \<and> valid_date t"
  by (auto simp: valid_date_def datetime_new_def split: if_splits)

lemma unique_seen_nonempty: "set xs - set seen \<noteq> {} \<Longrightarrow> unique_seen seen xs \<noteq> []"
  using unique_seen_set [of seen xs] by auto

lemma season_in_calendar_years:
  assumes "season_in_calendar df sm sd em ed"
  shows "''dates'' \<in> set (columns df)"
    and "\<forall>y\<in>set (unique (map (\<lambda>(i, r). year (r ''dates'')) (rows df))).
           \<exists>s e. datetime_new y sm sd = Inr s \<and> datetime_new y em ed = Inr e \<and>
                 in_timestamp_range (timestamp_of s) \<and> in_timestamp_range (timestamp_of e)"
proof -
  from assms show "''dates'' \<in> set (columns df)"
    by (simp add: season_in_calendar_def)
  have "\<exists>s e. datetime_new y sm sd = Inr s \<and> datetime_new y em ed = Inr e \<and>
                 in_timestamp_range (timestamp_of s) \<and> in_timestamp_range (timestamp_of e)"
    if "y \<in> set (map (\<lambda>(i, r). year (r ''dates'')) (rows df))" for y
  proof -
    from that obtain i r where ir: "(i, r) \<in> set (rows df)" "y = year (r ''dates'')"
      by auto
    from assms ir(1) have "case datetime_new (year (r ''dates'')) sm sd of
             Inl err \<Rightarrow> False
           | Inr s \<Rightarrow>
               (case datetime_new (year (r ''dates'')) em ed of
                  Inl err \<Rightarrow> False
                | Inr e \<Rightarrow>
                    in_timestamp_range (timestamp_of s) \<and> in_timestamp_range (timestamp_of e))"
      by (auto simp: season_in_calendar_def list_all_iff)
    then show ?thesis
      unfolding ir(2)
      by (cases "datetime_new (year (r ''dates'')) sm sd";
          cases "datetime_new (year (r ''dates'')) em ed") simp_all
  qed
  then show "\<forall>y\<in>set (unique (map (\<lambda>(i, r). year (r ''dates'')) (rows df))).
           \<exists>s e. datetime_new y sm sd = Inr s \<and> datetime_new y em ed = Inr e \<and>
                 in_timestamp_range (timestamp_of s) \<and> in_timestamp_range (timestamp_of e)"
    by (simp only: unique_set) blast
qed

lemma years_of_table:
  "''dates'' \<in> set (columns df) \<Longrightarrow>
   years df = Inr (unique (map (\<lambda>(i, r). year (r ''dates'')) (rows df)))"
  by (simp add: years_def getitem_col_def comp_def case_prod_unfold)

lemma daily_range_days:
  "daily_range (timestamp_of s) (timestamp_of e) =
     map (\<lambda>ord. (ord - 719163) * day_ns) [toordinal s..toordinal e]"
proof -
  let ?n = "nat (toordinal e - toordinal s + 1)"
  have "timestamp_of e - timestamp_of s = (toordinal e - toordinal s) * day_ns"
    by (simp add: timestamp_of_def algebra_simps)
  then have "(timestamp_of e - timestamp_of s) div day_ns = toordinal e - toordinal s"
    by (simp add: day_ns_def)
  then have "daily_range (timestamp_of s) (timestamp_of e) =
      map (\<lambda>k. timestamp_of s + int k * day_ns) [0..<?n]"
    by (simp add: daily_range_def)
  also have "\<dots> = map (\<lambda>ord. (ord - 719163) * day_ns) (map (\<lambda>k. toordinal s + int k) [0..<?n])"
    by (simp add: timestamp_of_def algebra_simps)
  also have "map (\<lambda>k. toordinal s + int k) [0..<?n] = [toordinal s..toordinal s + int ?n - 1]"
    by (rule shifted_upt_upto)
  also have "[toordinal s..toordinal s + int ?n - 1] = [toordinal s..toordinal e]"
    by (cases "toordinal s \<le> toordinal e") simp_all
  finally show ?thesis .
qed

lemma days_increasing:
  "sorted_wrt (<) (map (\<lambda>ord. (ord - 719163) * day_ns) [a..b])"
proof -
  have "sorted_wrt (\<lambda>x y. (x - 719163) * day_ns < (y - 719163) * day_ns) [a..b]"
    by (rule sorted_wrt_mono_rel [OF _ sorted_wrt_upto]) (simp add: day_ns_def)
  then show ?thesis
    by (simp add: sorted_wrt_map)
qed

lemma np_linspace_length: "length (np_linspace x n) = n"
  by (simp add: np_linspace_def)

lemma np_linspace_first: "0 < n \<Longrightarrow> hd (np_linspace x n) = 0"
proof -
  assume "0 < n"
  then consider "n = 1" | "2 \<le> n"
    by linarith
  then show ?thesis
  proof cases
    case 1
    then show ?thesis by (simp add: np_linspace_def)
  next
    case 2
    then have "[0..<n - 1] = 0 # [1..<n - 1]"
      by (simp add: upt_conv_Cons)
    with 2 show ?thesis
      by (simp add: np_linspace_def)
  qed
qed

lemma np_linspace_last: "2 \<le> n \<Longrightarrow> last (np_linspace x n) = x"
  by (simp add: np_linspace_def)

lemma np_linspace_sorted:
  assumes "0 \<le> x"
  shows "sorted (np_linspace x n)"
proof -
  consider "n = 0" | "n = 1" | "2 \<le> n"
    by linarith
  then show ?thesis
  proof cases
    case 1
    then show ?thesis by (simp add: np_linspace_def)
  next
    case 2
    then show ?thesis by (simp add: np_linspace_def)
  next
    case 3
    let ?f = "\<lambda>k. (int k * x) div (int n - 1)"
    have step: "?f a \<le> ?f b" if "a \<le> b" for a b
    proof -
      from that assms have "int a * x \<le> int b * x"
        by (simp add: mult_right_mono)
      with 3 show ?thesis
        by (intro zdiv_mono1) simp_all
    qed
    have "sorted_wrt (\<lambda>a b. ?f a \<le> ?f b) [0..<n - 1]"
      by (rule sorted_wrt_mono_rel [of _ "(<)"]) (simp_all add: step)
    then have inner: "sorted (map ?f [0..<n - 1])"
      by (simp add: sorted_map)
    have "?f k \<le> x" if "k < n - 1" for k
    proof -
      from that assms have "int k * x \<le> (int n - 1) * x"
        by (intro mult_right_mono) simp_all
      with 3 have "?f k \<le> ((int n - 1) * x) div (int n - 1)"
        by (intro zdiv_mono1) simp_all
      with 3 show ?thesis
        by simp
    qed
    with inner 3 show ?thesis
      by (auto simp: np_linspace_def sorted_append)
  qed
qed

lemma season_items_each:
  assumes "\<forall>y\<in>set ys. \<exists>s e ds. datetime_new y sm sd = Inr s \<and> datetime_new y em ed = Inr e \<and>
             date_range cr \<lparr>start_p = s, end_p = e, periods_p = p, freq_p = f\<rparr> = Inr ds \<and>
             P y ds"
  shows "\<exists>m. season_items cr ys sm sd em ed p f = Inr m \<and> map fst m = ys \<and>
             (\<forall>(y, ds)\<in>set m. P y ds)"
  using assms
proof (induction ys)
  case Nil
  then show ?case by simp
next
  case (Cons y ys)
  from Cons.prems obtain s e ds where se: "datetime_new y sm sd = Inr s"
    "datetime_new y em ed = Inr e"
    "date_range cr \<lparr>start_p = s, end_p = e, periods_p = p, freq_p = f\<rparr> = Inr ds" "P y ds"
    by auto
  from Cons.prems have "\<forall>y\<in>set ys. \<exists>s e ds. datetime_new y sm sd = Inr s \<and>
             datetime_new y em ed = Inr e \<and>
             date_range cr \<lparr>start_p = s, end_p = e, periods_p = p, freq_p = f\<rparr> = Inr ds \<and>
             P y ds"
    by simp
  then obtain m where m: "season_items cr ys sm sd em ed p f = Inr m" "map fst m = ys"
    "\<forall>(y, ds)\<in>set m. P y ds"
    using Cons.IH by blast
  have "season_items cr (y # ys) sm sd em ed p f = Inr ((y, ds) # m)"
    by (simp add: se(1,2,3) m(1))
  moreover have "map fst ((y, ds) # m) = y # ys"
    by (simp add: m(2))
  moreover have "\<forall>(y, ds)\<in>set ((y, ds) # m). P y ds"
    using se(4) m(3) by simp
  ultimately show ?case
    by (intro exI [where x = "(y, ds) # m"] conjI)
qed

lemma season_items_both_given:
  "ys \<noteq> [] \<Longrightarrow> season_items cr ys sm sd em ed (Some n) (Some f) = Inl ValueError"
proof (cases ys)
  case Nil
  assume "ys \<noteq> []"
  with Nil show ?thesis by simp
next
  case (Cons y ys')
  have "datetime_new y sm sd = Inl ValueError \<or> (\<exists>s. datetime_new y sm sd = Inr s)"
    by (simp add: datetime_new_def)
  moreover have "datetime_new y em ed = Inl ValueError \<or> (\<exists>e. datetime_new y em ed = Inr e)"
    by (simp add: datetime_new_def)
  ultimately show ?thesis
    by (auto simp: Cons date_range_def Let_def)
qed

lemma seasons_from_items:
  assumes "''dates'' \<in> set (columns df)"
    and "\<exists>m. season_items cr (unique (map (\<lambda>(i, r). year (r ''dates'')) (rows df)))
               sm sd em ed p f = Inr m \<and>
             map fst m = unique (map (\<lambda>(i, r). year (r ''dates'')) (rows df)) \<and>
             (\<forall>(y, ds)\<in>set m. P y ds)"
  shows "\<exists>m. seasons cr df sm sd em ed p f = Inr m \<and>
             map fst m = unique (map (\<lambda>(i, r). year (r ''dates'')) (rows df)) \<and>
             distinct (map fst m) \<and>
             set (map fst m) = set (map (\<lambda>(i, r). year (r ''dates'')) (rows df)) \<and>
             (\<forall>(y, ds)\<in>set m. P y ds)"
proof -
  let ?ys = "unique (map (\<lambda>(i, r). year (r ''dates'')) (rows df))"
  from assms(2) obtain m where m: "season_items cr ?ys sm sd em ed p f = Inr m"
    "map fst m = ?ys" "\<forall>(y, ds)\<in>set m. P y ds"
    by blast
  from assms(1) have "years df = Inr ?ys"
    by (rule years_of_table)
  with m(1) have "seasons cr df sm sd em ed p f = Inr m"
    by (simp add: seasons_def)
  moreover have "distinct (map fst m)"
    by (simp only: m(2) unique_distinct)
  moreover have "set (map fst m) = set (map (\<lambda>(i, r). year (r ''dates'')) (rows df))"
    by (simp only: m(2) unique_set)
  ultimately show ?thesis
    using m(2,3) by (intro exI [where x = m] conjI)
qed

lemma seasons_daily:
  assumes "season_in_calendar df sm sd em ed" "freq = None \<or> freq = Some D"
  shows "\<exists>m. seasons cr df sm sd em ed None freq = Inr m \<and>
             map fst m = unique (map (\<lambda>(i, r). year (r ''dates'')) (rows df)) \<and>
             distinct (map fst m) \<and>
             set (map fst m) = set (map (\<lambda>(i, r). year (r ''dates'')) (rows df)) \<and>
             (\<forall>(y, ds)\<in>set m.
                 ds = map (\<lambda>ord. (ord - 719163) * day_ns)
                        [toordinal \<lparr>year = y, month = sm, day = sd\<rparr>..
                         toordinal \<lparr>year = y, month = em, day = ed\<rparr>] \<and>
                 sorted_wrt (<) ds)"
proof -
  let ?ys = "unique (map (\<lambda>(i, r). year (r ''dates'')) (rows df))"
  have "\<exists>s e ds. datetime_new y sm sd = Inr s \<and> datetime_new y em ed = Inr e \<and>
          date_range cr \<lparr>start_p = s, end_p = e, periods_p = None, freq_p = freq\<rparr> = Inr ds \<and>
          ds = map (\<lambda>ord. (ord - 719163) * day_ns)
                 [toordinal \<lparr>year = y, month = sm, day = sd\<rparr>..
                  toordinal \<lparr>year = y, month = em, day = ed\<rparr>] \<and>
          sorted_wrt (<) ds"
    if "y \<in> set ?ys" for y
  proof -
    from that season_in_calendar_years(2) [OF assms(1)]
    obtain s e where se: "datetime_new y sm sd = Inr s" "datetime_new y em ed = Inr e"
      "in_timestamp_range (timestamp_of s)" "in_timestamp_range (timestamp_of e)"
      by blast
    from se(1,2) have eq: "s = \<lparr>year = y, month = sm, day = sd\<rparr>"
      "e = \<lparr>year = y, month = em, day = ed\<rparr>"
      using datetime_new_valid by blast+
    from assms(2) se(3,4)
    have "date_range cr \<lparr>start_p = s, end_p = e, periods_p = None, freq_p = freq\<rparr> =
        Inr (daily_range (timestamp_of s) (timestamp_of e))"
      by (auto simp: date_range_def Let_def)
    with se(1,2) eq show ?thesis
      by (simp add: daily_range_days days_increasing)
  qed
  then have "\<exists>m. season_items cr ?ys sm sd em ed None freq = Inr m \<and> map fst m = ?ys \<and>
      (\<forall>(y, ds)\<in>set m.
          ds = map (\<lambda>ord. (ord - 719163) * day_ns)
                 [toordinal \<lparr>year = y, month = sm, day = sd\<rparr>..
                  toordinal \<lparr>year = y, month = em, day = ed\<rparr>] \<and>
          sorted_wrt (<) ds)"
    by (intro season_items_each) blast
  with season_in_calendar_years(1) [OF assms(1)] show ?thesis
    by (rule seasons_from_items)
qed

lemma seasons_coded:
  assumes "season_in_calendar df sm sd em ed"
    and "\<forall>y\<in>set (map (\<lambda>(i, r). year (r ''dates'')) (rows df)).
           \<exists>ds. cr c (timestamp_of \<lparr>year = y, month = sm, day = sd\<rparr>)
                      (timestamp_of \<lparr>year = y, month = em, day = ed\<rparr>) = Inr ds"
  shows "\<exists>m. seasons cr df sm sd em ed None (Some (Code c)) = Inr m \<and>
             map fst m = unique (map (\<lambda>(i, r). year (r ''dates'')) (rows df)) \<and>
             distinct (map fst m) \<and>
             set (map fst m) = set (map (\<lambda>(i, r). year (r ''dates'')) (rows df)) \<and>
             (\<forall>(y, ds)\<in>set m.
                 cr c (timestamp_of \<lparr>year = y, month = sm, day = sd\<rparr>)
                      (timestamp_of \<lparr>year = y, month = em, day = ed\<rparr>) = Inr ds)"
proof -
  let ?ys = "unique (map (\<lambda>(i, r). year (r ''dates'')) (rows df))"
  have "\<exists>s e ds. datetime_new y sm sd = Inr s \<and> datetime_new y em ed = Inr e \<and>
          date_range cr \<lparr>start_p = s, end_p = e, periods_p = None, freq_p = Some (Code c)\<rparr> = Inr ds \<and>
          cr c (timestamp_of \<lparr>year = y, month = sm, day = sd\<rparr>)
               (timestamp_of \<lparr>year = y, month = em, day = ed\<rparr>) = Inr ds"
    if "y \<in> set ?ys" for y
  proof -
    from that season_in_calendar_years(2) [OF assms(1)]
    obtain s e where se: "datetime_new y sm sd = Inr s" "datetime_new y em ed = Inr e"
      "in_timestamp_range (timestamp_of s)" "in_timestamp_range (timestamp_of e)"
      by blast
    from se(1,2) have eq: "s = \<lparr>year = y, month = sm, day = sd\<rparr>"
      "e = \<lparr>year = y, month = em, day = ed\<rparr>"
      using datetime_new_valid by blast+
    from that have "y \<in> set (map (\<lambda>(i, r). year (r ''dates'')) (rows df))"
      by (simp only: unique_set)
    with assms(2) obtain ds where ds: "cr c (timestamp_of \<lparr>year = y, month = sm, day = sd\<rparr>)
        (timestamp_of \<lparr>year = y, month = em, day = ed\<rparr>) = Inr ds"
      by blast
    from se(3,4) have "date_range cr \<lparr>start_p = s, end_p = e, periods_p = None, freq_p = Some (Code c)\<rparr> =
        cr c (timestamp_of s) (timestamp_of e)"
      by (simp add: date_range_def Let_def)
    with se(1,2) eq ds show ?thesis
      by simp
  qed
  then have "\<exists>m. season_items cr ?ys sm sd em ed None (Some (Code c)) = Inr m \<and> map fst m = ?ys \<and>
      (\<forall>(y, ds)\<in>set m.
          cr c (timestamp_of \<lparr>year = y, month = sm, day = sd\<rparr>)
               (timestamp_of \<lparr>year = y, month = em, day = ed\<rparr>) = Inr ds)"
    by (intro season_items_each) blast
  with season_in_calendar_years(1) [OF assms(1)] show ?thesis
    by (rule seasons_from_items)
qed

lemma seasons_both_given:
  assumes "''dates'' \<in> set (columns df)" "rows df \<noteq> []"
  shows "seasons cr df sm sd em ed (Some n) (Some f) = Inl ValueError"
proof -
  from assms(2) have "set (map (\<lambda>(i, r). year (r ''dates'')) (rows df)) - set [] \<noteq> {}"
    by simp
  then have "unique (map (\<lambda>(i, r). year (r ''dates'')) (rows df)) \<noteq> []"
    unfolding unique_def by (rule unique_seen_nonempty)
  then have "season_items cr (unique (map (\<lambda>(i, r). year (r ''dates'')) (rows df)))
      sm sd em ed (Some n) (Some f) = Inl ValueError"
    by (rule season_items_both_given)
  with assms(1) show ?thesis
    by (simp add: seasons_def years_of_table)
qed

lemma seasons_evenly_spaced:
  assumes "season_in_calendar df sm sd em ed" "0 \<le> n"
  shows "\<exists>m. seasons cr df sm sd em ed (Some n) None = Inr m \<and>
             map fst m = unique (map (\<lambda>(i, r). year (r ''dates'')) (rows df)) \<and>
             distinct (map fst m) \<and>
             set (map fst m) = set (map (\<lambda>(i, r). year (r ''dates'')) (rows df)) \<and>
             (\<forall>(y, ds)\<in>set m.
                 length ds = nat n \<and>
                 (1 \<le> n \<longrightarrow> hd ds = timestamp_of \<lparr>year = y, month = sm, day = sd\<rparr>) \<and>
                 (2 \<le> n \<longrightarrow> last ds = timestamp_of \<lparr>year = y, month = em, day = ed\<rparr>) \<and>
                 (timestamp_of \<lparr>year = y, month = sm, day = sd\<rparr>
                    \<le> timestamp_of \<lparr>year = y, month = em, day = ed\<rparr> \<longrightarrow> sorted ds))"
proof -
  let ?ys = "unique (map (\<lambda>(i, r). year (r ''dates'')) (rows df))"
  let ?P = "\<lambda>y ds. length ds = nat n \<and>
                 (1 \<le> n \<longrightarrow> hd ds = timestamp_of \<lparr>year = y, month = sm, day = sd\<rparr>) \<and>
                 (2 \<le> n \<longrightarrow> last ds = timestamp_of \<lparr>year = y, month = em, day = ed\<rparr>) \<and>
                 (timestamp_of \<lparr>year = y, month = sm, day = sd\<rparr>
                    \<le> timestamp_of \<lparr>year = y, month = em, day = ed\<rparr> \<longrightarrow> sorted ds)"
  have "\<exists>s e ds. datetime_new y sm sd = Inr s \<and> datetime_new y em ed = Inr e \<and>
          date_range cr \<lparr>start_p = s, end_p = e, periods_p = Some n, freq_p = None\<rparr> = Inr ds \<and>
          ?P y ds"
    if "y \<in> set ?ys" for y
  proof -
    from that season_in_calendar_years(2) [OF assms(1)]
    obtain s e where se: "datetime_new y sm sd = Inr s" "datetime_new y em ed = Inr e"
      "in_timestamp_range (timestamp_of s)" "in_timestamp_range (timestamp_of e)"
      by blast
    from se(1,2) have eq: "s = \<lparr>year = y, month = sm, day = sd\<rparr>"
      "e = \<lparr>year = y, month = em, day = ed\<rparr>"
      using datetime_new_valid by blast+
    let ?ls = "np_linspace (timestamp_of e - timestamp_of s) (nat n)"
    let ?ds = "map (\<lambda>v. timestamp_of s + v) ?ls"
    from assms(2) se(3,4)
    have run: "date_range cr \<lparr>start_p = s, end_p = e, periods_p = Some n, freq_p = None\<rparr> = Inr ?ds"
      by (simp add: date_range_def Let_def)
    have len: "length ?ds = nat n"
      by (simp add: np_linspace_length)
    have first: "hd ?ds = timestamp_of s" if "1 \<le> n"
    proof -
      from that have pos: "0 < nat n"
        by simp
      then have "?ls \<noteq> []"
        using np_linspace_length [of "timestamp_of e - timestamp_of s" "nat n"] by auto
      then have "hd ?ds = timestamp_of s + hd ?ls"
        by (simp add: hd_map)
      with pos show ?thesis
        by (simp add: np_linspace_first)
    qed
    have final: "last ?ds = timestamp_of e" if "2 \<le> n"
    proof -
      from that have two: "2 \<le> nat n"
        by simp
      then have "?ls \<noteq> []"
        using np_linspace_length [of "timestamp_of e - timestamp_of s" "nat n"] by auto
      then have "last ?ds = timestamp_of s + last ?ls"
        by (simp add: last_map)
      with two show ?thesis
        by (simp add: np_linspace_last)
    qed
    have order: "sorted ?ds" if "timestamp_of s \<le> timestamp_of e"
    proof -
      from that have "sorted ?ls"
        by (intro np_linspace_sorted) simp
      then show ?thesis
        by (simp add: sorted_map sorted_wrt_iff_nth_less)
    qed
    from len first final order have "?P y ?ds"
      unfolding eq by blast
    with se(1,2) run show ?thesis
      by blast
  qed
  then have "\<exists>m. season_items cr ?ys sm sd em ed (Some n) None = Inr m \<and> map fst m = ?ys \<and>
      (\<forall>(y, ds)\<in>set m. ?P y ds)"
    by (intro season_items_each) blast
  with season_in_calendar_years(1) [OF assms(1)] show ?thesis
    by (rule seasons_from_items)
qed

text \<open>
  C4, as the code has it.  Let the table have a column \<open>dates\<close>, and let the start and
  the end of the season be dates of the calendar, within the range of pandas timestamps,
  in every year present.
  \<^item> With \<open>periods=None\<close> and \<open>freq='D'\<close> (the defaults) or \<open>freq=None\<close>, \<open>seasons\<close>
    returns one entry per year present in the column, in the order of first appearance,
    and the entry of a year holds the midnights of the consecutive days from (year, start
    month, start day) to (year, end month, end day), both included, in chronological
    order.
  \<^item> With \<open>periods=None\<close> and another frequency code, the entry of a year is what
    pandas generates for that code between the two dates.
  \<^item> With a number for \<open>periods\<close> and a frequency (so that start, end, periods and
    freq are all given, as with the default \<open>freq='D'\<close>), on a table with at least one
    row \<open>seasons\<close> raises ValueError: the end date is not preferred, the call fails.
  \<^item> With a number \<open>n \<ge> 0\<close> for \<open>periods\<close> and \<open>freq=None\<close>, the call succeeds and
    both the end date and \<open>periods\<close> bound every sequence: it has exactly \<open>n\<close>
    timestamps, the first is the start (\<open>n \<ge> 1\<close>), the last is the end (\<open>n \<ge> 2\<close>), in
    chronological order when the start is not after the end.
\<close>

theorem seasons_by_frequency:
  "(season_in_calendar df sm sd em ed \<and> (freq = None \<or> freq = Some D) \<longrightarrow>
      (\<exists>m. seasons cr df sm sd em ed None freq = Inr m \<and>
           map fst m = unique (map (\<lambda>(i, r). year (r ''dates'')) (rows df)) \<and>
           distinct (map fst m) \<and>
           set (map fst m) = set (map (\<lambda>(i, r). year (r ''dates'')) (rows df)) \<and>
           (\<forall>(y, ds)\<in>set m.
               ds = map (\<lambda>ord. (ord - 719163) * day_ns)
                      [toordinal \<lparr>year = y, month = sm, day = sd\<rparr>..
                       toordinal \<lparr>year = y, month = em, day = ed\<rparr>] \<and>
               sorted_wrt (<) ds))) \<and>
   (season_in_calendar df sm sd em ed \<and>
    (\<forall>y\<in>set (map (\<lambda>(i, r). year (r ''dates'')) (rows df)).
        \<exists>ds. cr c (timestamp_of \<lparr>year = y, month = sm, day = sd\<rparr>)
                   (timestamp_of \<lparr>year = y, month = em, day = ed\<rparr>) = Inr ds) \<longrightarrow>
      (\<exists>m. seasons cr df sm sd em ed None (Some (Code c)) = Inr m \<and>
           map fst m = unique (map (\<lambda>(i, r). year (r ''dates'')) (rows df)) \<and>
           distinct (map fst m) \<and>
           set (map fst m) = set (map (\<lambda>(i, r). year (r ''dates'')) (rows df)) \<and>
           (\<forall>(y, ds)\<in>set m.
               cr c (timestamp_of \<lparr>year = y, month = sm, day = sd\<rparr>)
                    (timestamp_of \<lparr>year = y, month = em, day = ed\<rparr>) = Inr ds))) \<and>
   (''dates'' \<in> set (columns df) \<and> rows df \<noteq> [] \<longrightarrow>
      seasons cr df sm sd em ed (Some n) (Some f) = Inl ValueError) \<and>
   (season_in_calendar df sm sd em ed \<and> 0 \<le> n \<longrightarrow>
      (\<exists>m. seasons cr df sm sd em ed (Some n) None = Inr m \<and>
           map fst m = unique (map (\<lambda>(i, r). year (r ''dates'')) (rows df)) \<and>
           distinct (map fst m) \<and>
           set (map fst m) = set (map (\<lambda>(i, r). year (r ''dates'')) (rows df)) \<and>
           (\<forall>(y, ds)\<in>set m.
               length ds = nat n \<and>
               (1 \<le> n \<longrightarrow> hd ds = timestamp_of \<lparr>year = y, month = sm, day = sd\<rparr>) \<and>
               (2 \<le> n \<longrightarrow> last ds = timestamp_of \<lparr>year = y, month = em, day = ed\<rparr>) \<and>
               (timestamp_of \<lparr>year = y, month = sm, day = sd\<rparr>
                  \<le> timestamp_of \<lparr>year = y, month = em, day = ed\<rparr> \<longrightarrow> sorted ds))))"
proof (intro conjI impI)
  assume "season_in_calendar df sm sd em ed \<and> (freq = None \<or> freq = Some D)"
  then show "\<exists>m. seasons cr df sm sd em ed None freq = Inr m \<and>
           map fst m = unique (map (\<lambda>(i, r). year (r ''dates'')) (rows df)) \<and>
           distinct (map fst m) \<and>
           set (map fst m) = set (map (\<lambda>(i, r). year (r ''dates'')) (rows df)) \<and>
           (\<forall>(y, ds)\<in>set m.
               ds = map (\<lambda>ord. (ord - 719163) * day_ns)
                      [toordinal \<lparr>year = y, month = sm, day = sd\<rparr>..
                       toordinal \<lparr>year = y, month = em, day = ed\<rparr>] \<and>
               sorted_wrt (<) ds)"
    by (intro seasons_daily) simp_all
next
  assume "season_in_calendar df sm sd em ed \<and>
    (\<forall>y\<in>set (map (\<lambda>(i, r). year (r ''dates'')) (rows df)).
        \<exists>ds. cr c (timestamp_of \<lparr>year = y, month = sm, day = sd\<rparr>)
                   (timestamp_of \<lparr>year = y, month = em, day = ed\<rparr>) = Inr ds)"
  then show "\<exists>m. seasons cr df sm sd em ed None (Some (Code c)) = Inr m \<and>
           map fst m = unique (map (\<lambda>(i, r). year (r ''dates'')) (rows df)) \<and>
           distinct (map fst m) \<and>
           set (map fst m) = set (map (\<lambda>(i, r). year (r ''dates'')) (rows df)) \<and>
           (\<forall>(y, ds)\<in>set m.
               cr c (timestamp_of \<lparr>year = y, month = sm, day = sd\<rparr>)
                    (timestamp_of \<lparr>year = y, month = em, day = ed\<rparr>) = Inr ds)"
    by (intro seasons_coded) blast+
next
  assume "''dates'' \<in> set (columns df) \<and> rows df \<noteq> []"
  then show "seasons cr df sm sd em ed (Some n) (Some f) = Inl ValueError"
    by (intro seasons_both_given) simp_all
next
  assume "season_in_calendar df sm sd em ed \<and> 0 \<le> n"
  then show "\<exists>m. seasons cr df sm sd em ed (Some n) None = Inr m \<and>
           map fst m = unique (map (\<lambda>(i, r). year (r ''dates'')) (rows df)) \<and>
           distinct (map fst m) \<and>
           set (map fst m) = set (map (\<lambda>(i, r). year (r ''dates'')) (rows df)) \<and>
           (\<forall>(y, ds)\<in>set m.
               length ds = nat n \<and>
               (1 \<le> n \<longrightarrow> hd ds = timestamp_of \<lparr>year = y, month = sm, day = sd\<rparr>) \<and>
               (2 \<le> n \<longrightarrow> last ds = timestamp_of \<lparr>year = y, month = em, day = ed\<rparr>) \<and>
               (timestamp_of \<lparr>year = y, month = sm, day = sd\<rparr>
                  \<le> timestamp_of \<lparr>year = y, month = em, day = ed\<rparr> \<longrightarrow> sorted ds))"
    by (intro seasons_evenly_spaced) simp_all
qed

theorem seasons_by_frequency_witness:
  "season_in_calendar
     \<lparr>columns = [''dates''],
      rows = [(0, \<lambda>_. \<lparr>year = 2001, month = 3, day = 4\<rparr>),
              (1, \<lambda>_. \<lparr>year = 2000, month = 7, day = 1\<rparr>),
              (2, \<lambda>_. \<lparr>year = 2001, month = 8, day = 9\<rparr>)]\<rparr> 2 27 3 2 \<and>
   (\<exists>m. seasons (\<lambda>(c :: unit) s e. Inr [s, e :: int])
           \<lparr>columns = [''dates''],
            rows = [(0, \<lambda>_. \<lparr>year = 2001, month = 3, day = 4\<rparr>),
                    (1, \<lambda>_. \<lparr>year = 2000, month = 7, day = 1\<rparr>),
                    (2, \<lambda>_. \<lparr>year = 2001, month = 8, day = 9\<rparr>)]\<rparr> 2 27 3 2 None (Some D) = Inr m \<and>
        map fst m = [2001, 2000] \<and>
        (\<forall>(y, ds)\<in>set m.
            ds = map (\<lambda>ord. (ord - 719163) * day_ns)
                   [toordinal \<lparr>year = y, month = 2, day = 27\<rparr>..
                    toordinal \<lparr>year = y, month = 3, day = 2\<rparr>] \<and>
            sorted_wrt (<) ds)) \<and>
   seasons (\<lambda>(c :: unit) s e. Inr [s, e :: int])
     \<lparr>columns = [''dates''],
      rows = [(0, \<lambda>_. \<lparr>year = 2001, month = 3, day = 4\<rparr>),
              (1, \<lambda>_. \<lparr>year = 2000, month = 7, day = 1\<rparr>),
              (2, \<lambda>_. \<lparr>year = 2001, month = 8, day = 9\<rparr>)]\<rparr> 2 27 3 2 None (Some D) =
     Inr [(2001, [983232000000000000, 983318400000000000, 983404800000000000,
                  983491200000000000]),
          (2000, [951609600000000000, 951696000000000000, 951782400000000000,
                  951868800000000000, 951955200000000000])] \<and>
   (\<exists>m. seasons (\<lambda>(c :: unit) s e. Inr [s, e :: int])
           \<lparr>columns = [''dates''],
            rows = [(0, \<lambda>_. \<lparr>year = 2001, month = 3, day = 4\<rparr>),
                    (1, \<lambda>_. \<lparr>year = 2000, month = 7, day = 1\<rparr>),
                    (2, \<lambda>_. \<lparr>year = 2001, month = 8, day = 9\<rparr>)]\<rparr> 2 27 3 2 None (Some (Code ())) = Inr m \<and>
        map fst m = [2001, 2000]) \<and>
   seasons (\<lambda>(c :: unit) s e. Inr [s, e :: int])
     \<lparr>columns = [''dates''],
      rows = [(0, \<lambda>_. \<lparr>year = 2001, month = 3, day = 4\<rparr>),
              (1, \<lambda>_. \<lparr>year = 2000, month = 7, day = 1\<rparr>),
              (2, \<lambda>_. \<lparr>year = 2001, month = 8, day = 9\<rparr>)]\<rparr> 2 27 3 2 (Some 3) (Some (D :: unit freq)) =
     Inl ValueError \<and>
   (\<exists>m. seasons (\<lambda>(c :: unit) s e. Inr [s, e :: int])
           \<lparr>columns = [''dates''],
            rows = [(0, \<lambda>_. \<lparr>year = 2001, month = 3, day = 4\<rparr>),
                    (1, \<lambda>_. \<lparr>year = 2000, month = 7, day = 1\<rparr>),
                    (2, \<lambda>_. \<lparr>year = 2001, month = 8, day = 9\<rparr>)]\<rparr> 2 27 3 2 (Some 3)
           (None :: unit freq option) = Inr m \<and>
        map fst m = [2001, 2000] \<and>
        (\<forall>(y, ds)\<in>set m.
            length ds = 3 \<and> hd ds = timestamp_of \<lparr>year = y, month = 2, day = 27\<rparr> \<and>
            last ds = timestamp_of \<lparr>year = y, month = 3, day = 2\<rparr> \<and> sorted ds))"
proof -
  let ?df = "\<lparr>columns = [''dates''],
              rows = [(0, \<lambda>_. \<lparr>year = 2001, month = 3, day = 4\<rparr>),
                      (1, \<lambda>_. \<lparr>year = 2000, month = 7, day = 1\<rparr>),
                      (2, \<lambda>_. \<lparr>year = 2001, month = 8, day = 9\<rparr>)]\<rparr>"
  let ?cr = "\<lambda>(c :: unit) s e. Inr [s, e :: int] :: error + int list"
  have cal: "season_in_calendar ?df 2 27 3 2"
    by (simp add: season_in_calendar_def datetime_new_def days_in_month_def is_leap_def
        in_timestamp_range_def timestamp_of_def toordinal_def days_before_year_def
        days_before_month_def day_ns_def)
  have col: "''dates'' \<in> set (columns ?df)" and ne: "rows ?df \<noteq> []"
    by simp_all
  have ys: "unique (map (\<lambda>(i, r). year (r ''dates'')) (rows ?df)) = [2001, 2000]"
    by (simp add: unique_def)
  have coded: "\<forall>y\<in>set (map (\<lambda>(i, r). year (r ''dates'')) (rows ?df)).
        \<exists>ds. ?cr () (timestamp_of \<lparr>year = y, month = 2, day = 27\<rparr>)
                   (timestamp_of \<lparr>year = y, month = 3, day = 2\<rparr>) = Inr ds"
    by simp
  have order: "timestamp_of \<lparr>year = y, month = 2, day = 27\<rparr>
      \<le> timestamp_of \<lparr>year = y, month = 3, day = 2\<rparr>" for y
    by (simp add: timestamp_of_def toordinal_def days_before_month_def day_ns_def)
  note inst = seasons_by_frequency [where df = ?df and sm = 2 and sd = 27 and em = 3 and ed = 2
      and cr = ?cr and freq = "Some D" and c = "()" and n = 3 and f = D]
  from inst cal obtain m1 where m1: "seasons ?cr ?df 2 27 3 2 None (Some D) = Inr m1"
    "map fst m1 = unique (map (\<lambda>(i, r). year (r ''dates'')) (rows ?df))"
    "\<forall>(y, ds)\<in>set m1.
        ds = map (\<lambda>ord. (ord - 719163) * day_ns)
               [toordinal \<lparr>year = y, month = 2, day = 27\<rparr>..
                toordinal \<lparr>year = y, month = 3, day = 2\<rparr>] \<and>
        sorted_wrt (<) ds"
    by blast
  from m1 ys have daily: "\<exists>m. seasons ?cr ?df 2 27 3 2 None (Some D) = Inr m \<and>
        map fst m = [2001, 2000] \<and>
        (\<forall>(y, ds)\<in>set m.
            ds = map (\<lambda>ord. (ord - 719163) * day_ns)
                   [toordinal \<lparr>year = y, month = 2, day = 27\<rparr>..
                    toordinal \<lparr>year = y, month = 3, day = 2\<rparr>] \<and>
            sorted_wrt (<) ds)"
    by (intro exI [where x = m1] conjI) simp_all
  have years: "years ?df = Inr [2001, 2000]"
    using col ys by (simp add: years_of_table)
  have d01: "datetime_new 2001 2 27 = Inr \<lparr>year = 2001, month = 2, day = 27\<rparr>"
    "datetime_new 2001 3 2 = Inr \<lparr>year = 2001, month = 3, day = 2\<rparr>"
    "datetime_new 2000 2 27 = Inr \<lparr>year = 2000, month = 2, day = 27\<rparr>"
    "datetime_new 2000 3 2 = Inr \<lparr>year = 2000, month = 3, day = 2\<rparr>"
    by (simp_all add: datetime_new_def days_in_month_def is_leap_def)
  have ts: "timestamp_of \<lparr>year = 2001, month = 2, day = 27\<rparr> = 983232000000000000"
    "timestamp_of \<lparr>year = 2001, month = 3, day = 2\<rparr> = 983491200000000000"
    "timestamp_of \<lparr>year = 2000, month = 2, day = 27\<rparr> = 951609600000000000"
    "timestamp_of \<lparr>year = 2000, month = 3, day = 2\<rparr> = 951955200000000000"
    by (simp_all add: timestamp_of_def toordinal_def days_before_year_def days_before_month_def
        is_leap_def day_ns_def)
  have rng: "in_timestamp_range 983232000000000000" "in_timestamp_range 983491200000000000"
    "in_timestamp_range 951609600000000000" "in_timestamp_range 951955200000000000"
    by (simp_all add: in_timestamp_range_def)
  have days: "daily_range 983232000000000000 983491200000000000 =
      [983232000000000000, 983318400000000000, 983404800000000000, 983491200000000000]"
    "daily_range 951609600000000000 951955200000000000 =
      [951609600000000000, 951696000000000000, 951782400000000000, 951868800000000000,
       951955200000000000]"
    by code_simp+
  have evaluated: "seasons ?cr ?df 2 27 3 2 None (Some D) =
     Inr [(2001, [983232000000000000, 983318400000000000, 983404800000000000,
                  983491200000000000]),
          (2000, [951609600000000000, 951696000000000000, 951782400000000000,
                  951868800000000000, 951955200000000000])]"
    by (simp add: seasons_def years d01 date_range_def Let_def ts rng days)
  from inst cal coded obtain m2 where m2: "seasons ?cr ?df 2 27 3 2 None (Some (Code ())) = Inr m2"
    "map fst m2 = unique (map (\<lambda>(i, r). year (r ''dates'')) (rows ?df))"
    by blast
  from m2 ys have code: "\<exists>m. seasons ?cr ?df 2 27 3 2 None (Some (Code ())) = Inr m \<and>
        map fst m = [2001, 2000]"
    by (intro exI [where x = m2] conjI) simp_all
  from inst col ne have both: "seasons ?cr ?df 2 27 3 2 (Some 3) (Some D) = Inl ValueError"
    by blast
  have three: "(0 :: int) \<le> 3"
    by simp
  from inst cal three obtain m3 where m3: "seasons ?cr ?df 2 27 3 2 (Some 3) None = Inr m3"
    "map fst m3 = unique (map (\<lambda>(i, r). year (r ''dates'')) (rows ?df))"
    "\<forall>(y, ds)\<in>set m3.
        length ds = nat 3 \<and>
        ((1 :: int) \<le> 3 \<longrightarrow> hd ds = timestamp_of \<lparr>year = y, month = 2, day = 27\<rparr>) \<and>
        ((2 :: int) \<le> 3 \<longrightarrow> last ds = timestamp_of \<lparr>year = y, month = 3, day = 2\<rparr>) \<and>
        (timestamp_of \<lparr>year = y, month = 2, day = 27\<rparr>
           \<le> timestamp_of \<lparr>year = y, month = 3, day = 2\<rparr> \<longrightarrow> sorted ds)"
    by blast
  from m3(3) order have "\<forall>(y, ds)\<in>set m3.
        length ds = 3 \<and> hd ds = timestamp_of \<lparr>year = y, month = 2, day = 27\<rparr> \<and>
        last ds = timestamp_of \<lparr>year = y, month = 3, day = 2\<rparr> \<and> sorted ds"
    by auto
  with m3(1,2) ys have spaced: "\<exists>m. seasons ?cr ?df 2 27 3 2 (Some 3) None = Inr m \<and>
        map fst m = [2001, 2000] \<and>
        (\<forall>(y, ds)\<in>set m.
            length ds = 3 \<and> hd ds = timestamp_of \<lparr>year = y, month = 2, day = 27\<rparr> \<and>
            last ds = timestamp_of \<lparr>year = y, month = 3, day = 2\<rparr> \<and> sorted ds)"
    by (intro exI [where x = m3] conjI) simp_all
  show ?thesis
    using cal daily evaluated code both spaced by (intro conjI)
qed

text \<open>
  The claim C4 as it is written fails when both an end date and a periods count are
  given.  On a table with the single date 2000-07-01, for the season from June 1 to June
  3: the call with \<open>periods=2\<close> and the default \<open>freq='D'\<close> raises ValueError; the call
  with \<open>periods=2\<close> and \<open>freq=None\<close> returns the two timestamps of June 1 and June 3,
  so that the periods count bounds the length; the call with \<open>periods=None\<close> returns the
  three days of the season.  A season that starts on February 30 raises ValueError, and
  a table without the column \<open>dates\<close> raises KeyError.
\<close>

theorem seasons_periods_counterexample:
  "seasons (\<lambda>(c :: unit) s e. Inl ValueError)
     \<lparr>columns = [''dates''], rows = [(0, \<lambda>_. \<lparr>year = 2000, month = 7, day = 1\<rparr>)]\<rparr>
     6 1 6 3 (Some 2) (Some (D :: unit freq)) = Inl ValueError \<and>
   seasons (\<lambda>(c :: unit) s e. Inl ValueError)
     \<lparr>columns = [''dates''], rows = [(0, \<lambda>_. \<lparr>year = 2000, month = 7, day = 1\<rparr>)]\<rparr>
     6 1 6 3 (Some 2) (None :: unit freq option) =
     Inr [(2000, [959817600000000000, 959990400000000000])] \<and>
   seasons (\<lambda>(c :: unit) s e. Inl ValueError)
     \<lparr>columns = [''dates''], rows = [(0, \<lambda>_. \<lparr>year = 2000, month = 7, day = 1\<rparr>)]\<rparr>
     6 1 6 3 None (Some (D :: unit freq)) =
     Inr [(2000, [959817600000000000, 959904000000000000, 959990400000000000])] \<and>
   timestamp_of \<lparr>year = 2000, month = 6, day = 1\<rparr> = 959817600000000000 \<and>
   timestamp_of \<lparr>year = 2000, month = 6, day = 3\<rparr> = 959990400000000000 \<and>
   seasons (\<lambda>(c :: unit) s e. Inl ValueError)
     \<lparr>columns = [''dates''], rows = [(0, \<lambda>_. \<lparr>year = 2000, month = 7, day = 1\<rparr>)]\<rparr>
     2 30 3 2 None (Some (D :: unit freq)) = Inl ValueError \<and>
   seasons (\<lambda>(c :: unit) s e. Inl ValueError)
     \<lparr>columns = [''qa''], rows = [(0, \<lambda>_. \<lparr>year = 2000, month = 7, day = 1\<rparr>)]\<rparr>
     6 1 6 3 None (Some (D :: unit freq)) = Inl KeyError"
proof -
  let ?df = "\<lparr>columns = [''dates''], rows = [(0, \<lambda>_. \<lparr>year = 2000, month = 7, day = 1\<rparr>)]\<rparr>"
  have ys: "years ?df = Inr [2000]"
    by (simp add: years_def getitem_col_def unique_def)
  have dates: "datetime_new 2000 6 1 = Inr \<lparr>year = 2000, month = 6, day = 1\<rparr>"
    "datetime_new 2000 6 3 = Inr \<lparr>year = 2000, month = 6, day = 3\<rparr>"
    by (simp_all add: datetime_new_def days_in_month_def is_leap_def)
  have ts: "timestamp_of \<lparr>year = 2000, month = 6, day = 1\<rparr> = 959817600000000000"
    "timestamp_of \<lparr>year = 2000, month = 6, day = 3\<rparr> = 959990400000000000"
    by (simp_all add: timestamp_of_def toordinal_def days_before_year_def days_before_month_def
        is_leap_def day_ns_def)
  have rng: "in_timestamp_range 959817600000000000" "in_timestamp_range 959990400000000000"
    by (simp_all add: in_timestamp_range_def)
  have lin: "np_linspace (959990400000000000 - 959817600000000000) (nat 2) = [0, 172800000000000]"
    by (simp add: np_linspace_def)
  have days: "daily_range 959817600000000000 959990400000000000 =
      [959817600000000000, 959904000000000000, 959990400000000000]"
    by (simp add: daily_range_def day_ns_def numeral_3_eq_3)
  have "seasons (\<lambda>(c :: unit) s e. Inl ValueError) ?df 6 1 6 3 (Some 2) (Some (D :: unit freq)) = Inl ValueError"
    by (simp add: seasons_def ys dates date_range_def Let_def)
  moreover have "seasons (\<lambda>(c :: unit) s e. Inl ValueError) ?df 6 1 6 3 (Some 2) (None :: unit freq option) =
     Inr [(2000, [959817600000000000, 959990400000000000])]"
    using lin by (simp add: seasons_def ys dates date_range_def Let_def ts rng)
  moreover have "seasons (\<lambda>(c :: unit) s e. Inl ValueError) ?df 6 1 6 3 None (Some (D :: unit freq)) =
     Inr [(2000, [959817600000000000, 959904000000000000, 959990400000000000])]"
    by (simp add: seasons_def ys dates date_range_def Let_def ts rng days)
  moreover have "seasons (\<lambda>(c :: unit) s e. Inl ValueError) ?df 2 30 3 2 None (Some (D :: unit freq)) =
     Inl ValueError"
    by (simp add: seasons_def ys datetime_new_def days_in_month_def is_leap_def)
  moreover have "seasons (\<lambda>(c :: unit) s e. Inl ValueError)
     \<lparr>columns = [''qa''], rows = [(0, \<lambda>_. \<lparr>year = 2000, month = 7, day = 1\<rparr>)]\<rparr>
     6 1 6 3 None (Some (D :: unit freq)) = Inl KeyError"
    by (simp add: seasons_def years_def getitem_col_def)
  ultimately show ?thesis
    using ts by (intro conjI)
qed

end
